theory Spec2Isabelle
  imports Main "HOL-Library.Word"
begin

unbundle bit_operations_syntax

section \<open>Data model of datapath/vport.c\<close>

type_synonym u8 = "8 word"
type_synonym u16 = "16 word"
type_synonym u32 = "32 word"
type_synonym u64 = "64 word"

text \<open>
  \<^verbatim>\<open>enum ovs_vport_type\<close>: the port types the file compares against
  (\<^verbatim>\<open>vport->ops->type\<close>, \<^verbatim>\<open>parms->type\<close>).
\<close>

datatype ovs_vport_type =
    OVS_VPORT_TYPE_UNSPEC
  | OVS_VPORT_TYPE_NETDEV
  | OVS_VPORT_TYPE_INTERNAL
  | OVS_VPORT_TYPE_GRE
  | OVS_VPORT_TYPE_VXLAN
  | OVS_VPORT_TYPE_GRE64
  | OVS_VPORT_TYPE_LISP

text \<open>\<^verbatim>\<open>enum vport_err_type\<close>, the argument of \<^verbatim>\<open>ovs_vport_record_error\<close>.\<close>

datatype vport_err_type =
    VPORT_E_RX_DROPPED
  | VPORT_E_RX_ERROR
  | VPORT_E_TX_DROPPED
  | VPORT_E_TX_ERROR

text \<open>
  \<^verbatim>\<open>struct ovs_vport_stats\<close> (the snapshot and the offset), \<^verbatim>\<open>struct vport_err_stats\<close>
  and \<^verbatim>\<open>struct pcpu_tstats\<close>. Every counter is a 64-bit unsigned integer, so \<open>+\<close> wraps
  modulo \<open>2 ^ 64\<close> as in C. The sequence counter \<^verbatim>\<open>syncp\<close> of \<^verbatim>\<open>pcpu_tstats\<close> only serves
  the retry protocol between concurrent contexts; in this sequential model a read of a
  per-CPU slot is one snapshot and the retry loop runs once.
\<close>

record ovs_vport_stats =
  rx_packets :: u64
  tx_packets :: u64
  rx_bytes :: u64
  tx_bytes :: u64
  rx_errors :: u64
  tx_errors :: u64
  rx_dropped :: u64
  tx_dropped :: u64

record vport_err_stats =
  e_rx_dropped :: u64
  e_rx_errors :: u64
  e_tx_dropped :: u64
  e_tx_errors :: u64

record pcpu_tstats =
  p_rx_packets :: u64
  p_rx_bytes :: u64
  p_tx_packets :: u64
  p_tx_bytes :: u64

text \<open>
  \<^verbatim>\<open>struct vport\<close>. Pointers are replaced by what the file reads through them:
  \<open>dp_net\<close> is \<^verbatim>\<open>ovs_dp_get_net(vport->dp)\<close>, \<open>ops_type\<close> is \<^verbatim>\<open>vport->ops->type\<close>,
  \<open>dev_name\<close> is \<^verbatim>\<open>vport->ops->get_name(vport)\<close>, \<open>dev_mtu\<close> is
  \<^verbatim>\<open>netdev_vport_priv(vport)->dev->mtu\<close>, and \<open>percpu_stats\<close> holds one slot per
  possible CPU.
\<close>

record vport =
  dp_net :: nat
  port_no :: u16
  upcall_portid :: u32
  ops_type :: ovs_vport_type
  dev_name :: string
  dev_mtu :: u32
  offset_stats :: ovs_vport_stats
  err_stats :: vport_err_stats
  percpu_stats :: "pcpu_tstats list"

section \<open>Statistics\<close>

text \<open>\<^verbatim>\<open>ovs_vport_set_stats\<close>: \<^verbatim>\<open>vport->offset_stats = *stats\<close> under the stats lock.\<close>

definition ovs_vport_set_stats :: "vport \<Rightarrow> ovs_vport_stats \<Rightarrow> vport" where
  "ovs_vport_set_stats v stats = v\<lparr>offset_stats := stats\<rparr>"

text \<open>The body of the \<^verbatim>\<open>for_each_possible_cpu\<close> loop of \<^verbatim>\<open>ovs_vport_get_stats\<close>.\<close>

definition add_local_stats :: "pcpu_tstats \<Rightarrow> ovs_vport_stats \<Rightarrow> ovs_vport_stats" where
  "add_local_stats local_stats stats =
     stats\<lparr>rx_bytes := rx_bytes stats + p_rx_bytes local_stats,
           rx_packets := rx_packets stats + p_rx_packets local_stats,
           tx_bytes := tx_bytes stats + p_tx_bytes local_stats,
           tx_packets := tx_packets stats + p_tx_packets local_stats\<rparr>"

text \<open>
  \<^verbatim>\<open>ovs_vport_get_stats\<close>: the offset, plus the four error counters, plus every per-CPU
  slot in CPU order.
\<close>

definition ovs_vport_get_stats :: "vport \<Rightarrow> ovs_vport_stats" where
  "ovs_vport_get_stats v =
     (let stats = offset_stats v;
          stats = stats\<lparr>rx_errors := rx_errors stats + e_rx_errors (err_stats v)\<rparr>;
          stats = stats\<lparr>tx_errors := tx_errors stats + e_tx_errors (err_stats v)\<rparr>;
          stats = stats\<lparr>tx_dropped := tx_dropped stats + e_tx_dropped (err_stats v)\<rparr>;
          stats = stats\<lparr>rx_dropped := rx_dropped stats + e_rx_dropped (err_stats v)\<rparr>
      in foldl (\<lambda>s p. add_local_stats p s) stats (percpu_stats v))"

text \<open>\<^verbatim>\<open>ovs_vport_record_error\<close>: the \<^verbatim>\<open>switch\<close> over the error type.\<close>

fun ovs_vport_record_error :: "vport \<Rightarrow> vport_err_type \<Rightarrow> vport" where
  "ovs_vport_record_error v VPORT_E_RX_DROPPED =
     v\<lparr>err_stats := (err_stats v)\<lparr>e_rx_dropped := e_rx_dropped (err_stats v) + 1\<rparr>\<rparr>"
| "ovs_vport_record_error v VPORT_E_RX_ERROR =
     v\<lparr>err_stats := (err_stats v)\<lparr>e_rx_errors := e_rx_errors (err_stats v) + 1\<rparr>\<rparr>"
| "ovs_vport_record_error v VPORT_E_TX_DROPPED =
     v\<lparr>err_stats := (err_stats v)\<lparr>e_tx_dropped := e_tx_dropped (err_stats v) + 1\<rparr>\<rparr>"
| "ovs_vport_record_error v VPORT_E_TX_ERROR =
     v\<lparr>err_stats := (err_stats v)\<lparr>e_tx_errors := e_tx_errors (err_stats v) + 1\<rparr>\<rparr>"

text \<open>The snapshot's error counter that belongs to an error type.\<close>

fun err_counter :: "vport_err_type \<Rightarrow> ovs_vport_stats \<Rightarrow> u64" where
  "err_counter VPORT_E_RX_DROPPED s = rx_dropped s"
| "err_counter VPORT_E_RX_ERROR s = rx_errors s"
| "err_counter VPORT_E_TX_DROPPED s = tx_dropped s"
| "err_counter VPORT_E_TX_ERROR s = tx_errors s"

section \<open>Packet buffers\<close>

text \<open>
  The per-packet control block \<^verbatim>\<open>OVS_CB(skb)\<close>: \<open>frag_max_size\<close> is
  \<^verbatim>\<open>OVS_CB(skb)->pkt_key->phy.frag_max_size\<close>, \<open>tun_key\<close> the tunnel key pointer.
\<close>

record ovs_skb_cb =
  frag_max_size :: u32
  tun_key :: nat

text \<open>
  \<^verbatim>\<open>struct sk_buff\<close> as this file uses it. \<open>data\<close> holds the bytes from \<^verbatim>\<open>skb->data\<close>
  to the tail; on the transmit path \<^verbatim>\<open>skb->data\<close> points at the Ethernet header, so the
  MAC header is at offset 0 of \<open>data\<close>. \<open>network_header\<close> is the offset of the IP header
  from \<^verbatim>\<open>skb->data\<close>. \<open>vlan_proto\<close> and \<open>vlan_tci\<close> are the hardware-accelerated VLAN
  tag fields. Multi-byte header fields are kept as the numbers they denote on the wire
  (what \<^verbatim>\<open>ntohs\<close> returns).
\<close>

record sk_buff =
  data :: "u8 list"
  network_header :: nat
  vlan_proto :: u16
  vlan_tci :: u16
  cb :: ovs_skb_cb

text \<open>
  Constants of the kernel headers. \<^verbatim>\<open>NET_IP_ALIGN\<close> depends on the architecture (2 unless
  the architecture overrides it); it only enters the size passed to \<^verbatim>\<open>alloc_skb\<close>.
\<close>

definition ETH_ALEN :: nat where "ETH_ALEN = 6"
definition ETH_HLEN :: u32 where "ETH_HLEN = 14"
definition VLAN_HLEN :: nat where "VLAN_HLEN = 4"
definition NET_IP_ALIGN :: u32 where "NET_IP_ALIGN = 2"
definition ETH_P_IP :: u16 where "ETH_P_IP = 0x0800"
definition ETH_P_8021Q :: u16 where "ETH_P_8021Q = 0x8100"
definition IP_DF :: u32 where "IP_DF = 0x4000"
definition IP_MF :: u32 where "IP_MF = 0x2000"
definition IP_OFFSET :: u32 where "IP_OFFSET = 0x1FFF"
definition VLAN_TAG_PRESENT :: u16 where "VLAN_TAG_PRESENT = 0x1000"

text \<open>Reading and writing a big-endian 16-bit field at a byte offset.\<close>

definition get_be16 :: "u8 list \<Rightarrow> nat \<Rightarrow> u16" where
  "get_be16 bs i = push_bit 8 (ucast (bs ! i)) OR ucast (bs ! Suc i)"

definition put_be16 :: "u8 list \<Rightarrow> nat \<Rightarrow> u16 \<Rightarrow> u8 list" where
  "put_be16 bs i v = bs[i := ucast (drop_bit 8 v), Suc i := ucast v]"

text \<open>
  \<^verbatim>\<open>ntohs(eth_hdr(skb)->h_proto)\<close> and the fields of \<^verbatim>\<open>vlan_eth_hdr(skb)\<close>:
  \<^verbatim>\<open>h_vlan_proto\<close> at byte 12, \<^verbatim>\<open>h_vlan_TCI\<close> at 14, \<^verbatim>\<open>h_vlan_encapsulated_proto\<close> at 16.
\<close>

definition eth_h_proto :: "sk_buff \<Rightarrow> u16" where
  "eth_h_proto skb = get_be16 (data skb) 12"

definition vlan_h_vlan_proto :: "sk_buff \<Rightarrow> u16" where
  "vlan_h_vlan_proto skb = get_be16 (data skb) 12"

definition vlan_h_vlan_TCI :: "sk_buff \<Rightarrow> u16" where
  "vlan_h_vlan_TCI skb = get_be16 (data skb) 14"

definition vlan_h_vlan_encapsulated_proto :: "sk_buff \<Rightarrow> u16" where
  "vlan_h_vlan_encapsulated_proto skb = get_be16 (data skb) 16"

text \<open>
  The fields of \<^verbatim>\<open>ip_hdr(skb)\<close>, read at \<open>network_header\<close>: the header length in
  32-bit words (low nibble of byte 0), \<^verbatim>\<open>ip_hdrlen\<close> in bytes, \<^verbatim>\<open>ntohs(tot_len)\<close> and
  \<^verbatim>\<open>ntohs(frag_off)\<close>.
\<close>

definition ip_ihl :: "sk_buff \<Rightarrow> u8" where
  "ip_ihl skb = (data skb ! network_header skb) AND 0x0F"

definition ip_hdrlen :: "sk_buff \<Rightarrow> u32" where
  "ip_hdrlen skb = ucast (ip_ihl skb) * 4"

definition ip_tot_len :: "sk_buff \<Rightarrow> u16" where
  "ip_tot_len skb = get_be16 (data skb) (network_header skb + 2)"

definition ip_frag_off :: "sk_buff \<Rightarrow> u16" where
  "ip_frag_off skb = get_be16 (data skb) (network_header skb + 6)"

text \<open>
  \<^verbatim>\<open>skb_copy_bits(skb, offset, to, len)\<close> on a linear buffer that holds the range: the
  \<open>len\<close> bytes at \<open>offset\<close>. (The C function fails and leaves the destination
  uninitialised when the range leaves the buffer; the theorems below require the packet
  to be as long as its IP header says.)
\<close>

definition skb_copy_bits :: "sk_buff \<Rightarrow> u32 \<Rightarrow> u32 \<Rightarrow> u8 list" where
  "skb_copy_bits skb offset len = take (unat len) (drop (unat offset) (data skb))"

text \<open>
  \<^verbatim>\<open>ip_send_check(iph)\<close> of the kernel: clear \<^verbatim>\<open>check\<close>, then store the one's complement
  of the one's complement sum of the header's 16-bit words (\<^verbatim>\<open>ip_fast_csum\<close> with
  \<^verbatim>\<open>csum_fold\<close>: two folds of the 32-bit sum, then complement).
\<close>

definition csum_fold :: "u32 \<Rightarrow> u16" where
  "csum_fold s =
     (let s1 = (s AND 0xFFFF) + drop_bit 16 s;
          s2 = (s1 AND 0xFFFF) + drop_bit 16 s1
      in NOT (ucast s2))"

definition ip_fast_csum :: "u8 list \<Rightarrow> nat \<Rightarrow> u16" where
  "ip_fast_csum iph ihl =
     csum_fold (foldl (\<lambda>s k. s + ucast (get_be16 iph (2 * k))) 0 [0..<2 * ihl])"

definition ip_send_check :: "u8 list \<Rightarrow> u8 list" where
  "ip_send_check iph =
     (let iph0 = put_be16 iph 10 0
      in put_be16 iph0 10 (ip_fast_csum iph0 (unat (iph0 ! 0 AND 0x0F))))"

text \<open>
  \<^verbatim>\<open>vlan_tx_tag_present\<close>, \<^verbatim>\<open>vlan_tx_tag_get\<close> and \<^verbatim>\<open>__vlan_hwaccel_put_tag\<close> of the kernel
  (the three-argument form of Linux 3.10 and later).
\<close>

definition vlan_tx_tag_present :: "sk_buff \<Rightarrow> bool" where
  "vlan_tx_tag_present skb = (vlan_tci skb AND VLAN_TAG_PRESENT \<noteq> 0)"

definition vlan_tx_tag_get :: "sk_buff \<Rightarrow> u16" where
  "vlan_tx_tag_get skb = vlan_tci skb AND NOT VLAN_TAG_PRESENT"

definition vlan_hwaccel_put_tag :: "sk_buff \<Rightarrow> u16 \<Rightarrow> u16 \<Rightarrow> sk_buff" where
  "vlan_hwaccel_put_tag skb proto tci =
     skb\<lparr>vlan_proto := proto, vlan_tci := VLAN_TAG_PRESENT OR tci\<rparr>"

section \<open>The environment of the transmit path\<close>

text \<open>
  What the transmit path calls outside this file, as functions on a state \<open>'w\<close> of the
  rest of the kernel: the backend's \<^verbatim>\<open>vport->ops->send\<close> (its \<^verbatim>\<open>int\<close> result as a 32-bit
  word, read signed), \<^verbatim>\<open>alloc_skb\<close> (\<open>True\<close> when it returns a buffer, the argument is the
  requested size) and \<^verbatim>\<open>skb_cow_head\<close> (\<open>True\<close> when it returns 0). \<open>this_cpu\<close> is the
  index of the executing CPU.
\<close>

record 'w host =
  ops_send :: "vport \<Rightarrow> sk_buff \<Rightarrow> 'w \<Rightarrow> u32 \<times> 'w"
  alloc_skb :: "u32 \<Rightarrow> 'w \<Rightarrow> bool \<times> 'w"
  skb_cow_head :: "sk_buff \<Rightarrow> 'w \<Rightarrow> bool \<times> 'w"
  this_cpu :: nat

text \<open>
  The state the transmit path changes: the vport (its statistics), the rest of the
  kernel, the buffers handed to the backend's \<^verbatim>\<open>send\<close> in call order, the buffers
  passed to \<^verbatim>\<open>kfree_skb\<close> in call order, and the outcomes of the calls of \<^verbatim>\<open>alloc_skb\<close>
  in call order (\<open>True\<close> for a buffer, \<open>False\<close> for \<^verbatim>\<open>NULL\<close>).
\<close>

record 'w kstate =
  vp :: vport
  world :: 'w
  tx_log :: "sk_buff list"
  freed :: "sk_buff list"
  allocs :: "bool list"

definition kfree_skb :: "sk_buff \<Rightarrow> 'w kstate \<Rightarrow> 'w kstate" where
  "kfree_skb skb st = st\<lparr>freed := freed st @ [skb]\<rparr>"

section \<open>The transmit path\<close>

text \<open>
  \<^verbatim>\<open>__ovs_vport_send\<close>: call the backend, then account for the result on this CPU's slot
  or in the error counters. \<^verbatim>\<open>stats->tx_bytes += sent\<close> converts the positive \<^verbatim>\<open>int\<close>
  to 64 bits.
\<close>

definition ovs_vport_send_direct :: "'w host \<Rightarrow> sk_buff \<Rightarrow> 'w kstate \<Rightarrow> u32 \<times> 'w kstate" where
  "ovs_vport_send_direct h skb st =
     (let (sent, w) = ops_send h (vp st) skb (world st);
          st = st\<lparr>world := w, tx_log := tx_log st @ [skb]\<rparr>
      in if 0 <s sent then
           let stats = percpu_stats (vp st) ! this_cpu h;
               stats = stats\<lparr>p_tx_packets := p_tx_packets stats + 1\<rparr>;
               stats = stats\<lparr>p_tx_bytes := p_tx_bytes stats + scast sent\<rparr>
           in (sent, st\<lparr>vp := (vp st)\<lparr>percpu_stats := (percpu_stats (vp st))[this_cpu h := stats]\<rparr>\<rparr>)
         else if sent <s 0 then
           (sent, kfree_skb skb (st\<lparr>vp := ovs_vport_record_error (vp st) VPORT_E_TX_ERROR\<rparr>))
         else
           (sent, st\<lparr>vp := ovs_vport_record_error (vp st) VPORT_E_TX_DROPPED\<rparr>))"

text \<open>
  \<^verbatim>\<open>ovs_vlan_untag\<close>: \<open>None\<close> is the \<^verbatim>\<open>NULL\<close> result. The \<^verbatim>\<open>memmove\<close> copies the two MAC
  addresses four bytes up, \<^verbatim>\<open>skb_pull\<close> drops the first four bytes (so the network header,
  counted from the new \<^verbatim>\<open>skb->data\<close>, is four bytes closer), and the tag goes to the
  hardware-accelerated fields. A failure of \<^verbatim>\<open>skb_cow_head\<close> returns \<^verbatim>\<open>NULL\<close> and leaves
  the buffer alone.
\<close>

definition ovs_vlan_untag :: "'w host \<Rightarrow> sk_buff \<Rightarrow> 'w \<Rightarrow> sk_buff option \<times> 'w" where
  "ovs_vlan_untag h skb w =
     (if eth_h_proto skb \<noteq> ETH_P_8021Q then (None, w)
      else
        let tci = vlan_h_vlan_TCI skb;
            proto = vlan_h_vlan_proto skb;
            (ok, w) = skb_cow_head h skb w
        in if \<not> ok then (None, w)
           else
             let d = data skb;
                 d = take VLAN_HLEN d @ take (ETH_ALEN * 2) d @ drop (VLAN_HLEN + ETH_ALEN * 2) d;
                 skb = skb\<lparr>data := drop VLAN_HLEN d,
                           network_header := network_header skb - VLAN_HLEN\<rparr>
             in (Some (vlan_hwaccel_put_tag skb proto tci), w))"

text \<open>
  The construction of one fragment in the loop of \<^verbatim>\<open>ovs_vport_fragment\<close> (from
  \<^verbatim>\<open>skb_reserve\<close> to the VLAN tag): the payload slice, the copied IP header with
  \<^verbatim>\<open>tot_len\<close>, \<^verbatim>\<open>frag_off\<close> and \<^verbatim>\<open>check\<close> rewritten, the copied Ethernet header, the
  copied control block and the re-applied VLAN tag. The header fields are written at the
  fragment's network header, which is the start of header plus payload.
\<close>

definition build_frag :: "sk_buff \<Rightarrow> u32 \<Rightarrow> u32 \<Rightarrow> u32 \<Rightarrow> u32 \<Rightarrow> sk_buff" where
  "build_frag skb ip_hlen flag frag_off frag_len =
     (let payload = skb_copy_bits skb (ETH_HLEN + ip_hlen + frag_off) frag_len;
          iph = skb_copy_bits skb ETH_HLEN ip_hlen @ payload;
          iph = put_be16 iph 2 (ucast (ip_hlen + frag_len));
          iph = put_be16 iph 6 (ucast (drop_bit 3 frag_off AND IP_OFFSET));
          iph = put_be16 iph 6 (get_be16 iph 6 OR ucast flag);
          iph = ip_send_check iph;
          frag = \<lparr>data = skb_copy_bits skb 0 ETH_HLEN @ iph,
                  network_header = unat ETH_HLEN,
                  vlan_proto = 0, vlan_tci = 0, cb = cb skb\<rparr>
      in if vlan_tx_tag_present skb
         then vlan_hwaccel_put_tag frag (vlan_proto skb) (vlan_tx_tag_get skb)
         else frag)"

text \<open>
  The \<^verbatim>\<open>while (left > 0)\<close> loop of \<^verbatim>\<open>ovs_vport_fragment\<close> with its two exits: the early
  \<^verbatim>\<open>return sent\<close> when \<^verbatim>\<open>alloc_skb\<close> fails, and \<^verbatim>\<open>kfree_skb(skb); return sent\<close> after the
  loop. The loop need not terminate, so not returning is the value \<open>None\<close>.
\<close>

partial_function (option) ovs_vport_fragment_loop ::
  "'w host \<Rightarrow> sk_buff \<Rightarrow> u32 \<Rightarrow> u32 \<Rightarrow> u32 \<Rightarrow> u32 \<Rightarrow> u32 \<Rightarrow> u32 \<Rightarrow> 'w kstate
     \<Rightarrow> (u32 \<times> 'w kstate) option" where
  "ovs_vport_fragment_loop h skb ip_hlen frag_max flag left frag_off sent st =
     (if 0 < left then
        let flag = (if frag_max < left then flag OR IP_MF else flag AND NOT IP_MF);
            frag_len = (if frag_max < left then frag_max else left);
            len = ETH_HLEN + NET_IP_ALIGN + ip_hlen + frag_len;
            (ok, w) = alloc_skb h len (world st);
            st = st\<lparr>world := w, allocs := allocs st @ [ok]\<rparr>
        in if \<not> ok then Some (sent, st)
           else
             let frag = build_frag skb ip_hlen flag frag_off frag_len;
                 (sent, st) = ovs_vport_send_direct h frag st
             in ovs_vport_fragment_loop h skb ip_hlen frag_max flag
                  (left - frag_len) (frag_off + frag_len) sent st
      else Some (sent, kfree_skb skb st))"

declare ovs_vport_fragment_loop.simps [code]

text \<open>\<^verbatim>\<open>ovs_vport_fragment\<close>: the initialisers, then the loop.\<close>

definition ovs_vport_fragment ::
  "'w host \<Rightarrow> sk_buff \<Rightarrow> u32 \<Rightarrow> u32 \<Rightarrow> 'w kstate \<Rightarrow> (u32 \<times> 'w kstate) option" where
  "ovs_vport_fragment h skb frag_max_sz mtu st =
     (let ip_hlen = ip_hdrlen skb;
          flag = ucast (ip_frag_off skb) AND IP_DF;
          left = ucast (ip_tot_len skb) - ip_hlen;
          frag_max = ((if 0 < frag_max_sz then frag_max_sz else mtu) - ip_hlen) AND NOT 7
      in ovs_vport_fragment_loop h skb ip_hlen frag_max flag left 0 0 st)"

text \<open>
  \<^verbatim>\<open>ovs_vport_send\<close>. The local \<^verbatim>\<open>mtu\<close> is the device MTU for the netdev and internal
  port types and 0 otherwise. The chain of tests ends in one of the labels \<^verbatim>\<open>send\<close> and
  \<^verbatim>\<open>fragment\<close> or in \<^verbatim>\<open>return 0\<close>; on the way to \<^verbatim>\<open>fragment\<close> a tagged packet is untagged.
\<close>

datatype jump = Goto_send | Goto_fragment sk_buff | Return u32

definition ovs_vport_send_mtu :: "vport \<Rightarrow> u32" where
  "ovs_vport_send_mtu v =
     (if ops_type v = OVS_VPORT_TYPE_NETDEV \<or> ops_type v = OVS_VPORT_TYPE_INTERNAL
      then dev_mtu v else 0)"

definition ovs_vport_send_select :: "'w host \<Rightarrow> sk_buff \<Rightarrow> 'w kstate \<Rightarrow> jump \<times> 'w kstate" where
  "ovs_vport_send_select h skb st =
     (let mtu = ovs_vport_send_mtu (vp st);
          frag_max_sz = frag_max_size (cb skb)
      in if 0 < frag_max_sz then (Goto_fragment skb, st)
         else if mtu = 0 then (Goto_send, st)
         else if eth_h_proto skb = ETH_P_IP then
           (if ip_frag_off skb AND ucast IP_DF \<noteq> 0 then (Goto_send, st)
            else if mtu < ucast (ip_tot_len skb) then (Goto_fragment skb, st)
            else (Goto_send, st))
         else if eth_h_proto skb = ETH_P_8021Q then
           (if vlan_h_vlan_encapsulated_proto skb = ETH_P_IP then
              (if ip_frag_off skb AND ucast IP_DF \<noteq> 0 then (Goto_send, st)
               else if mtu < ucast (ip_tot_len skb) then
                 (case ovs_vlan_untag h skb (world st) of
                    (None, w) \<Rightarrow> (Return 0, st\<lparr>world := w\<rparr>)
                  | (Some skb', w) \<Rightarrow> (Goto_fragment skb', st\<lparr>world := w\<rparr>))
               else (Goto_send, st))
            else (Goto_send, st))
         else (Goto_send, st))"

definition ovs_vport_send :: "'w host \<Rightarrow> sk_buff \<Rightarrow> 'w kstate \<Rightarrow> (u32 \<times> 'w kstate) option" where
  "ovs_vport_send h skb st =
     (case ovs_vport_send_select h skb st of
        (Goto_send, st') \<Rightarrow> Some (ovs_vport_send_direct h skb st')
      | (Goto_fragment skb', st') \<Rightarrow>
          ovs_vport_fragment h skb' (frag_max_size (cb skb)) (ovs_vport_send_mtu (vp st)) st'
      | (Return r, st') \<Rightarrow> Some (r, st'))"

section \<open>The registry\<close>

text \<open>
  \<^verbatim>\<open>struct vport_parms\<close> and the two members of \<^verbatim>\<open>struct vport_ops\<close> that
  \<^verbatim>\<open>ovs_vport_add\<close> uses. \<^verbatim>\<open>create\<close> returns a vport or an \<^verbatim>\<open>ERR_PTR\<close> (here \<open>Inl\<close> of the
  negative errno) and may change the rest of the kernel.
\<close>

record vport_parms =
  parm_name :: string
  parm_type :: ovs_vport_type
  parm_dp_net :: nat
  parm_port_no :: u16
  parm_upcall_portid :: u32

record 'w vport_ops =
  vo_type :: ovs_vport_type
  vo_create :: "vport_parms \<Rightarrow> 'w \<Rightarrow> (int + vport) \<times> 'w"

definition ENOMEM :: int where "ENOMEM = 12"
definition EAFNOSUPPORT :: int where "EAFNOSUPPORT = 97"

text \<open>
  \<^verbatim>\<open>dev_table\<close>: the bucket at each index, newest entry first. \<^verbatim>\<open>hash_bucket\<close> masks the
  kernel's \<^verbatim>\<open>jhash(name, strlen(name), net)\<close>, which is a parameter here, with
  \<^verbatim>\<open>VPORT_HASH_BUCKETS - 1\<close>.
\<close>

type_synonym dev_table = "nat \<Rightarrow> vport list"

definition VPORT_HASH_BUCKETS :: u32 where "VPORT_HASH_BUCKETS = 1024"

definition hash_bucket :: "(string \<Rightarrow> nat \<Rightarrow> nat \<Rightarrow> u32) \<Rightarrow> nat \<Rightarrow> string \<Rightarrow> nat" where
  "hash_bucket jhash net name =
     unat (jhash name (length name) net AND (VPORT_HASH_BUCKETS - 1))"

text \<open>\<^verbatim>\<open>ovs_vport_locate\<close>: the first entry of the bucket with that name and namespace.\<close>

definition ovs_vport_locate ::
  "(string \<Rightarrow> nat \<Rightarrow> nat \<Rightarrow> u32) \<Rightarrow> dev_table \<Rightarrow> nat \<Rightarrow> string \<Rightarrow> vport option" where
  "ovs_vport_locate jhash tbl net name =
     find (\<lambda>v. name = dev_name v \<and> dp_net v = net) (tbl (hash_bucket jhash net name))"

text \<open>
  \<^verbatim>\<open>ovs_vport_add\<close>: the \<^verbatim>\<open>for\<close> loop over \<^verbatim>\<open>vport_ops_list\<close> (a parameter: the operation
  tables are defined by the backends), then \<^verbatim>\<open>err = -EAFNOSUPPORT\<close>.
\<close>

fun ovs_vport_add_scan ::
  "(string \<Rightarrow> nat \<Rightarrow> nat \<Rightarrow> u32) \<Rightarrow> 'w vport_ops list \<Rightarrow> vport_parms \<Rightarrow> dev_table \<Rightarrow> 'w
     \<Rightarrow> (int + vport) \<times> dev_table \<times> 'w" where
  "ovs_vport_add_scan jhash [] parms tbl w = (Inl (- EAFNOSUPPORT), tbl, w)"
| "ovs_vport_add_scan jhash (ops # rest) parms tbl w =
     (if vo_type ops = parm_type parms then
        (case vo_create ops parms w of
           (Inl err, w') \<Rightarrow> (Inl err, tbl, w')
         | (Inr vport, w') \<Rightarrow>
             (let bucket = hash_bucket jhash (dp_net vport) (dev_name vport)
              in (Inr vport, tbl(bucket := vport # tbl bucket), w')))
      else ovs_vport_add_scan jhash rest parms tbl w)"

definition ovs_vport_add ::
  "(string \<Rightarrow> nat \<Rightarrow> nat \<Rightarrow> u32) \<Rightarrow> 'w vport_ops list \<Rightarrow> vport_parms \<Rightarrow> dev_table \<Rightarrow> 'w
     \<Rightarrow> (int + vport) \<times> dev_table \<times> 'w" where
  "ovs_vport_add jhash vport_ops_list parms tbl w =
     ovs_vport_add_scan jhash vport_ops_list parms tbl w"

section \<open>Vocabulary of the fragmentation properties\<close>

text \<open>
  The IP payload of a frame, read by the frame's own header: the bytes after the IP header
  up to \<^verbatim>\<open>tot_len\<close>.
\<close>

definition ip_payload :: "sk_buff \<Rightarrow> u8 list" where
  "ip_payload skb =
     take (unat (ip_tot_len skb) - unat (ip_hdrlen skb))
       (drop (network_header skb + unat (ip_hdrlen skb)) (data skb))"

text \<open>
  A plain IPv4 frame as \<^verbatim>\<open>ovs_vport_fragment\<close> reads it: the IP header follows the 14-byte
  Ethernet header, the header length is at least five words and at most \<^verbatim>\<open>tot_len\<close>, and
  the buffer holds the \<^verbatim>\<open>tot_len\<close> bytes the header announces.
\<close>

definition ipv4_frame :: "sk_buff \<Rightarrow> bool" where
  "ipv4_frame skb =
     (network_header skb = 14 \<and> 5 \<le> ip_ihl skb \<and>
      ip_hdrlen skb \<le> ucast (ip_tot_len skb) \<and>
      14 + unat (ip_tot_len skb) \<le> length (data skb))"

text \<open>
  The IP part (header and payload) of a fragment as \<open>build_frag\<close> computes it, and the
  value the loop first stores in \<^verbatim>\<open>frag_off\<close>.
\<close>

definition frag_iph :: "sk_buff \<Rightarrow> u32 \<Rightarrow> u32 \<Rightarrow> u32 \<Rightarrow> u32 \<Rightarrow> u8 list" where
  "frag_iph skb ip_hlen flag frag_off frag_len =
     (let payload = skb_copy_bits skb (ETH_HLEN + ip_hlen + frag_off) frag_len;
          iph = skb_copy_bits skb ETH_HLEN ip_hlen @ payload;
          iph = put_be16 iph 2 (ucast (ip_hlen + frag_len));
          iph = put_be16 iph 6 (ucast (drop_bit 3 frag_off AND IP_OFFSET));
          iph = put_be16 iph 6 (get_be16 iph 6 OR ucast flag)
      in ip_send_check iph)"

definition off_field :: "u32 \<Rightarrow> u16" where
  "off_field off = ucast (drop_bit 3 off AND IP_OFFSET)"

text \<open>
  The fragments that a run of the loop hands to the backend, described along the loop's own
  recursion; \<open>c\<close> says that the run ended by exhausting the payload. \<open>chain_inv\<close> is the
  loop invariant: offset plus remainder stay within the payload, the offset and the
  fragment size are multiples of 8, and the flag word holds at most the DF and MF bits.
\<close>

fun frag_seq :: "bool \<Rightarrow> sk_buff \<Rightarrow> u32 \<Rightarrow> u32 \<Rightarrow> u32 \<Rightarrow> u32 \<Rightarrow> u32 \<Rightarrow> sk_buff list \<Rightarrow> bool" where
  "frag_seq c skb hl fm flag left off [] = (c \<longrightarrow> left = 0)"
| "frag_seq c skb hl fm flag left off (f # fs) =
     (0 < left \<and>
      f = build_frag skb hl (if fm < left then flag OR IP_MF else flag AND NOT IP_MF) off
            (if fm < left then fm else left) \<and>
      frag_seq c skb hl fm (if fm < left then flag OR IP_MF else flag AND NOT IP_MF)
        (left - (if fm < left then fm else left)) (off + (if fm < left then fm else left)) fs)"

definition chain_inv :: "sk_buff \<Rightarrow> u32 \<Rightarrow> u32 \<Rightarrow> u32 \<Rightarrow> u32 \<Rightarrow> bool" where
  "chain_inv skb fm flag left off =
     (ipv4_frame skb \<and>
      unat (ip_hdrlen skb) + unat off + unat left \<le> unat (ip_tot_len skb) \<and>
      8 dvd unat off \<and> 8 dvd unat fm \<and> flag \<in> {0, 0x2000, 0x4000, 0x6000})"

section \<open>Example inputs\<close>

definition zero_stats :: ovs_vport_stats where
  "zero_stats = \<lparr>rx_packets = 0, tx_packets = 0, rx_bytes = 0, tx_bytes = 0,
     rx_errors = 0, tx_errors = 0, rx_dropped = 0, tx_dropped = 0\<rparr>"

definition zero_err_stats :: vport_err_stats where
  "zero_err_stats = \<lparr>e_rx_dropped = 0, e_rx_errors = 0, e_tx_dropped = 0, e_tx_errors = 0\<rparr>"

definition zero_tstats :: pcpu_tstats where
  "zero_tstats = \<lparr>p_rx_packets = 0, p_rx_bytes = 0, p_tx_packets = 0, p_tx_bytes = 0\<rparr>"

text \<open>A netdev port with MTU 1500 on a machine with two CPUs, all counters zero.\<close>

definition vport0 :: vport where
  "vport0 = \<lparr>dp_net = 0, port_no = 1, upcall_portid = 0, ops_type = OVS_VPORT_TYPE_NETDEV,
     dev_name = ''eth0'', dev_mtu = 1500, offset_stats = zero_stats,
     err_stats = zero_err_stats, percpu_stats = [zero_tstats, zero_tstats]\<rparr>"

definition stats0 :: ovs_vport_stats where
  "stats0 = \<lparr>rx_packets = 10, tx_packets = 20, rx_bytes = 3000, tx_bytes = 4000,
     rx_errors = 1, tx_errors = 2, rx_dropped = 3, tx_dropped = 4\<rparr>"

text \<open>A backend list with the netdev backend only, whose \<^verbatim>\<open>create\<close> fails, and a request
  for a GRE port.\<close>

definition ops_list0 :: "nat vport_ops list" where
  "ops_list0 = [\<lparr>vo_type = OVS_VPORT_TYPE_NETDEV, vo_create = (\<lambda>p w. (Inl (- ENOMEM), Suc w))\<rparr>]"

definition parms0 :: vport_parms where
  "parms0 = \<lparr>parm_name = ''gre0'', parm_type = OVS_VPORT_TYPE_GRE, parm_dp_net = 0,
     parm_port_no = 2, parm_upcall_portid = 0\<rparr>"

definition jhash0 :: "string \<Rightarrow> nat \<Rightarrow> nat \<Rightarrow> u32" where
  "jhash0 name len net = of_nat (len + net)"

text \<open>
  A backend that accepts every buffer and reports its length, with an allocator that never
  fails and counts its calls in the state; variants whose second allocation fails, whose
  \<^verbatim>\<open>skb_cow_head\<close> fails, and whose \<^verbatim>\<open>send\<close> returns \<^verbatim>\<open>-5\<close> or 0.
\<close>

definition host0 :: "nat host" where
  "host0 = \<lparr>ops_send = (\<lambda>v skb w. (of_nat (length (data skb)), w)),
     alloc_skb = (\<lambda>len w. (True, Suc w)), skb_cow_head = (\<lambda>skb w. (True, w)), this_cpu = 0\<rparr>"

definition host_alloc1 :: "nat host" where
  "host_alloc1 = host0\<lparr>alloc_skb := (\<lambda>len w. (w < 1, Suc w))\<rparr>"

definition host_nocow :: "nat host" where
  "host_nocow = host0\<lparr>skb_cow_head := (\<lambda>skb w. (False, w))\<rparr>"

definition host_err :: "nat host" where
  "host_err = host0\<lparr>ops_send := (\<lambda>v skb w. (- 5, w))\<rparr>"

definition host_drop :: "nat host" where
  "host_drop = host0\<lparr>ops_send := (\<lambda>v skb w. (0, w))\<rparr>"

definition kstate0 :: "nat kstate" where
  "kstate0 = \<lparr>vp = vport0, world = 0, tx_log = [], freed = [], allocs = []\<rparr>"

definition kstate_mtu :: "u32 \<Rightarrow> nat kstate" where
  "kstate_mtu m = kstate0\<lparr>vp := vport0\<lparr>dev_mtu := m\<rparr>\<rparr>"

text \<open>
  An untagged and an 802.1Q-tagged (VLAN 100) Ethernet frame with a 20-byte IPv4 header
  carrying the given \<^verbatim>\<open>tot_len\<close> and \<^verbatim>\<open>frag_off\<close>, with the given per-packet override and
  payload.
\<close>

definition ipv4_pkt :: "u16 \<Rightarrow> u16 \<Rightarrow> u32 \<Rightarrow> u8 list \<Rightarrow> sk_buff" where
  "ipv4_pkt tot fo fms payload =
     \<lparr>data = [2, 0, 0, 0, 0, 1, 2, 0, 0, 0, 0, 2, 0x08, 0x00,
               0x45, 0, ucast (drop_bit 8 tot), ucast tot, 0, 1, ucast (drop_bit 8 fo), ucast fo,
               64, 17, 0, 0, 10, 0, 0, 1, 10, 0, 0, 2] @ payload,
      network_header = 14, vlan_proto = 0, vlan_tci = 0,
      cb = \<lparr>frag_max_size = fms, tun_key = 0\<rparr>\<rparr>"

definition vlan_pkt :: "u16 \<Rightarrow> u16 \<Rightarrow> u32 \<Rightarrow> u8 list \<Rightarrow> sk_buff" where
  "vlan_pkt tot fo fms payload =
     \<lparr>data = [2, 0, 0, 0, 0, 1, 2, 0, 0, 0, 0, 2, 0x81, 0x00, 0x00, 0x64, 0x08, 0x00,
               0x45, 0, ucast (drop_bit 8 tot), ucast tot, 0, 1, ucast (drop_bit 8 fo), ucast fo,
               64, 17, 0, 0, 10, 0, 0, 1, 10, 0, 0, 2] @ payload,
      network_header = 18, vlan_proto = 0, vlan_tci = 0,
      cb = \<lparr>frag_max_size = fms, tun_key = 0\<rparr>\<rparr>"

definition payload20 :: "u8 list" where
  "payload20 = [1, 2, 3, 4, 5, 6, 7, 8, 9, 10, 11, 12, 13, 14, 15, 16, 17, 18, 19, 20]"

definition pkt_df :: sk_buff where
  "pkt_df = ipv4_pkt 40 0x4000 0 payload20"

definition pkt_36 :: sk_buff where
  "pkt_36 = ipv4_pkt 36 0 0 (take 16 payload20)"

definition pkt_37 :: sk_buff where
  "pkt_37 = ipv4_pkt 37 0 0 (take 17 payload20)"

definition pkt_1000 :: sk_buff where
  "pkt_1000 = ipv4_pkt 1000 0 600 (replicate 980 0)"

definition pkt_ovr :: sk_buff where
  "pkt_ovr = ipv4_pkt 40 0 36 payload20"

definition pkt_tiny :: sk_buff where
  "pkt_tiny = ipv4_pkt 40 0 24 payload20"

definition pkt_refrag :: sk_buff where
  "pkt_refrag = ipv4_pkt 40 0x20B9 36 payload20"

definition pkt_vlan :: sk_buff where
  "pkt_vlan = vlan_pkt 40 0 0 payload20"

definition pkt_vlan_ovr :: sk_buff where
  "pkt_vlan_ovr = vlan_pkt 40 0 36 payload20"

definition pkt_40 :: sk_buff where
  "pkt_40 = ipv4_pkt 40 0 0 payload20"

text \<open>The buffers a finished call handed to the backend.\<close>

definition sent_frags :: "(u32 \<times> 'w kstate) option \<Rightarrow> sk_buff list" where
  "sent_frags res = (case res of None \<Rightarrow> [] | Some (r, st) \<Rightarrow> tx_log st)"

section \<open>Properties of the statistics\<close>

lemma err_counter_foldl_local:
  "err_counter k (foldl (\<lambda>s p. add_local_stats p s) s ps) = err_counter k s"
  by (induction ps arbitrary: s) (cases k; simp add: add_local_stats_def)+

lemma err_counter_get_stats:
  "err_counter k (ovs_vport_get_stats v) =
     err_counter k (offset_stats v) +
     (case k of VPORT_E_RX_DROPPED \<Rightarrow> e_rx_dropped (err_stats v)
      | VPORT_E_RX_ERROR \<Rightarrow> e_rx_errors (err_stats v)
      | VPORT_E_TX_DROPPED \<Rightarrow> e_tx_dropped (err_stats v)
      | VPORT_E_TX_ERROR \<Rightarrow> e_tx_errors (err_stats v))"
  by (cases k; simp add: ovs_vport_get_stats_def Let_def err_counter_foldl_local)

text \<open>
  Claim C7. After \<open>n\<close> calls of \<^verbatim>\<open>ovs_vport_record_error\<close> with error type \<open>k\<close>, the
  snapshot of \<^verbatim>\<open>ovs_vport_get_stats\<close> shows the counter of \<open>k\<close> raised by \<open>n\<close> and each of
  the other three error counters unchanged. The counters are 64-bit, so "raised by \<open>n\<close>"
  is addition modulo \<open>2 ^ 64\<close>, as the C type has it.
\<close>

theorem record_error_counts:
  "err_counter k' (ovs_vport_get_stats (((\<lambda>v. ovs_vport_record_error v k) ^^ n) v)) =
     err_counter k' (ovs_vport_get_stats v) + (if k' = k then of_nat n else 0)"
proof (induction n)
  case 0
  show ?case by simp
next
  case (Suc n)
  then show ?case
    by (cases k; cases k'; simp add: err_counter_get_stats)
qed

lemma foldl_zero_tstats:
  "\<forall>p\<in>set ps. p = zero_tstats \<Longrightarrow> foldl (\<lambda>s p. add_local_stats p s) s ps = s"
  by (induction ps arbitrary: s) (simp_all add: add_local_stats_def zero_tstats_def)

text \<open>
  Claim C8. On a vport whose error counters and per-CPU accumulators are all zero,
  \<^verbatim>\<open>ovs_vport_set_stats\<close> with \<open>S\<close> followed by \<^verbatim>\<open>ovs_vport_get_stats\<close> returns exactly \<open>S\<close>.
\<close>

theorem set_stats_get_stats:
  assumes "err_stats v = zero_err_stats"
    and "\<forall>p\<in>set (percpu_stats v). p = zero_tstats"
  shows "ovs_vport_get_stats (ovs_vport_set_stats v S) = S"
  using assms
  by (simp add: ovs_vport_get_stats_def ovs_vport_set_stats_def Let_def foldl_zero_tstats
      zero_err_stats_def)

theorem set_stats_get_stats_witness:
  "err_stats vport0 = zero_err_stats \<and> percpu_stats vport0 = [zero_tstats, zero_tstats] \<and>
   ovs_vport_get_stats (ovs_vport_set_stats vport0 stats0) = stats0"
proof -
  have 1: "err_stats vport0 = zero_err_stats" by (simp add: vport0_def)
  have 2: "\<forall>p\<in>set (percpu_stats vport0). p = zero_tstats" by (simp add: vport0_def)
  have 3: "percpu_stats vport0 = [zero_tstats, zero_tstats]" by (simp add: vport0_def)
  show ?thesis using 1 3 set_stats_get_stats [OF 1 2, of stats0] by simp
qed

section \<open>Properties of the registry\<close>

lemma ovs_vport_add_scan_no_match:
  "\<forall>ops\<in>set l. vo_type ops \<noteq> parm_type parms \<Longrightarrow>
   ovs_vport_add_scan jhash l parms tbl w = (Inl (- EAFNOSUPPORT), tbl, w)"
  by (induction l) simp_all

text \<open>
  Claim C9. When no entry of the backend list has the requested port type,
  \<^verbatim>\<open>ovs_vport_add\<close> returns \<^verbatim>\<open>-EAFNOSUPPORT\<close>, which differs from \<^verbatim>\<open>-ENOMEM\<close>; no backend's
  \<^verbatim>\<open>create\<close> runs (the rest of the kernel is unchanged), the table is unchanged, and
  \<^verbatim>\<open>ovs_vport_locate\<close> finds what it found before.
\<close>

theorem ovs_vport_add_unsupported:
  assumes "\<forall>ops\<in>set vport_ops_list. vo_type ops \<noteq> parm_type parms"
  shows "ovs_vport_add jhash vport_ops_list parms tbl w = (Inl (- EAFNOSUPPORT), tbl, w) \<and>
         - EAFNOSUPPORT \<noteq> - ENOMEM \<and>
         (\<forall>net name.
            ovs_vport_locate jhash (fst (snd (ovs_vport_add jhash vport_ops_list parms tbl w))) net name =
            ovs_vport_locate jhash tbl net name)"
  using assms
  by (simp add: ovs_vport_add_def ovs_vport_add_scan_no_match EAFNOSUPPORT_def ENOMEM_def)

theorem ovs_vport_add_unsupported_witness:
  "map vo_type ops_list0 = [OVS_VPORT_TYPE_NETDEV] \<and> parm_type parms0 = OVS_VPORT_TYPE_GRE \<and>
   ovs_vport_add jhash0 ops_list0 parms0 (\<lambda>_. []) (0::nat) = (Inl (- 97), (\<lambda>_. []), 0)"
proof -
  have 1: "\<forall>ops\<in>set ops_list0. vo_type ops \<noteq> parm_type parms0"
    by (simp add: ops_list0_def parms0_def)
  have 2: "map vo_type ops_list0 = [OVS_VPORT_TYPE_NETDEV]" "parm_type parms0 = OVS_VPORT_TYPE_GRE"
    by (simp_all add: ops_list0_def parms0_def)
  show ?thesis
    using 2 ovs_vport_add_unsupported [OF 1, of jhash0 "\<lambda>_. []" 0]
    by (simp add: EAFNOSUPPORT_def)
qed

section \<open>Properties of fragmentation\<close>

subsection \<open>Big-endian fields and the checksum update\<close>

lemma get_put_be16: "Suc i < length bs \<Longrightarrow> get_be16 (put_be16 bs i v) i = v"
  apply (simp add: get_be16_def put_be16_def)
  apply (rule bit_word_eqI)
  apply (auto simp add: bit_simps)
  done

lemma length_put_be16 [simp]: "length (put_be16 bs i v) = length bs"
  by (simp add: put_be16_def)

lemma nth_put_be16: "j \<noteq> i \<Longrightarrow> j \<noteq> Suc i \<Longrightarrow> put_be16 bs i v ! j = bs ! j"
  by (simp add: put_be16_def)

lemma get_put_be16_other: "Suc j < i \<or> Suc i < j \<Longrightarrow> get_be16 (put_be16 bs i v) j = get_be16 bs j"
  by (auto simp add: get_be16_def nth_put_be16)

lemma drop_put_be16: "Suc i < n \<Longrightarrow> drop n (put_be16 bs i v) = drop n bs"
  by (simp add: put_be16_def drop_update_cancel)

lemma get_be16_append2: "get_be16 (xs @ ys) (length xs + i) = get_be16 ys i"
  by (simp add: get_be16_def nth_append)

lemma length_ip_send_check [simp]: "length (ip_send_check bs) = length bs"
  by (simp add: ip_send_check_def Let_def)

lemma nth_ip_send_check: "j \<noteq> 10 \<Longrightarrow> j \<noteq> 11 \<Longrightarrow> ip_send_check bs ! j = bs ! j"
  by (simp add: ip_send_check_def Let_def nth_put_be16)

lemma get_be16_ip_send_check: "Suc j < 10 \<Longrightarrow> get_be16 (ip_send_check bs) j = get_be16 bs j"
  by (simp add: ip_send_check_def Let_def get_put_be16_other)

lemma drop_ip_send_check: "11 < n \<Longrightarrow> drop n (ip_send_check bs) = drop n bs"
  by (simp add: ip_send_check_def Let_def drop_put_be16)

subsection \<open>The bytes of one fragment\<close>

lemma data_build_frag:
  "data (build_frag skb hl flag fo fl) = skb_copy_bits skb 0 ETH_HLEN @ frag_iph skb hl flag fo fl"
  by (simp add: build_frag_def frag_iph_def Let_def vlan_hwaccel_put_tag_def)

lemma network_header_build_frag: "network_header (build_frag skb hl flag fo fl) = 14"
  by (simp add: build_frag_def Let_def vlan_hwaccel_put_tag_def ETH_HLEN_def)

lemma skb_copy_bits_eth: "skb_copy_bits skb 0 ETH_HLEN = take 14 (data skb)"
  by (simp add: skb_copy_bits_def ETH_HLEN_def)

lemma skb_copy_bits_iph: "skb_copy_bits skb ETH_HLEN hl = take (unat hl) (drop 14 (data skb))"
  by (simp add: skb_copy_bits_def ETH_HLEN_def)

lemma skb_copy_bits_payload:
  assumes "unat hl + unat fo < 65536"
  shows "skb_copy_bits skb (ETH_HLEN + hl + fo) fl =
           take (unat fl) (drop (14 + unat hl + unat fo) (data skb))"
proof -
  have "unat (ETH_HLEN + hl + fo) = 14 + unat hl + unat fo"
    using assms by (simp add: ETH_HLEN_def unat_word_ariths)
  then show ?thesis by (simp add: skb_copy_bits_def)
qed

text \<open>The IP part of a fragment before the field updates.\<close>

lemma frag_iph_eq:
  assumes "unat hl + unat fo < 65536"
  shows "frag_iph skb hl flag fo fl =
     (let iph = take (unat hl) (drop 14 (data skb)) @ take (unat fl) (drop (14 + unat hl + unat fo) (data skb));
          iph = put_be16 iph 2 (ucast (hl + fl));
          iph = put_be16 iph 6 (ucast (drop_bit 3 fo AND IP_OFFSET));
          iph = put_be16 iph 6 (get_be16 iph 6 OR ucast flag)
      in ip_send_check iph)"
  by (simp add: frag_iph_def skb_copy_bits_iph skb_copy_bits_payload [OF assms])

lemma length_frag_iph:
  assumes "14 + unat hl + unat fo + unat fl \<le> length (data skb)" "unat hl + unat fo < 65536"
  shows "length (frag_iph skb hl flag fo fl) = unat hl + unat fl"
  using assms(1) by (simp add: frag_iph_eq [OF assms(2)] Let_def)

lemma frag_iph_nth0:
  assumes "14 + unat hl + unat fo + unat fl \<le> length (data skb)" "unat hl + unat fo < 65536" "0 < unat hl"
  shows "frag_iph skb hl flag fo fl ! 0 = data skb ! 14"
  using assms(1,3) by (simp add: frag_iph_eq [OF assms(2)] Let_def nth_ip_send_check nth_put_be16 nth_append)

lemma frag_iph_tot_len:
  assumes "14 + unat hl + unat fo + unat fl \<le> length (data skb)" "unat hl + unat fo < 65536" "4 \<le> unat hl"
  shows "get_be16 (frag_iph skb hl flag fo fl) 2 = ucast (hl + fl)"
  using assms(1,3) by (simp add: frag_iph_eq [OF assms(2)] Let_def get_be16_ip_send_check get_put_be16_other get_put_be16)

lemma frag_iph_frag_off:
  assumes "14 + unat hl + unat fo + unat fl \<le> length (data skb)" "unat hl + unat fo < 65536" "8 \<le> unat hl"
  shows "get_be16 (frag_iph skb hl flag fo fl) 6 = ucast (drop_bit 3 fo AND IP_OFFSET) OR ucast flag"
  using assms(1,3) by (simp add: frag_iph_eq [OF assms(2)] Let_def get_be16_ip_send_check get_put_be16_other get_put_be16)

lemma frag_iph_drop:
  assumes "14 + unat hl + unat fo + unat fl \<le> length (data skb)" "unat hl + unat fo < 65536" "12 \<le> unat hl"
  shows "drop (unat hl) (frag_iph skb hl flag fo fl) = take (unat fl) (drop (14 + unat hl + unat fo) (data skb))"
  using assms(1,3) by (simp add: frag_iph_eq [OF assms(2)] Let_def drop_ip_send_check drop_put_be16)

subsection \<open>Well-formed frames\<close>

lemma unat_u16_less: "unat (w::u16) < 65536"
proof -
  have "unat w < 2 ^ LENGTH(16)" by (rule unsigned_less)
  then show ?thesis by simp
qed

lemma unat_ucast_8_32: "unat (ucast (w::u8) :: u32) = unat w"
proof -
  have "unat w < 2 ^ LENGTH(8)" by (rule unsigned_less)
  then have "unat w < 2 ^ 32" by simp
  then show ?thesis by (simp add: unsigned_ucast_eq take_bit_nat_eq_self)
qed

lemma unat_ucast_16_32: "unat (ucast (w::u16) :: u32) = unat w"
proof -
  have "unat w < 2 ^ 32" using unat_u16_less [of w] by simp
  then show ?thesis by (simp add: unsigned_ucast_eq take_bit_nat_eq_self)
qed

lemma unat_ip_ihl_le: "unat (ip_ihl skb) \<le> 15"
proof -
  have "ip_ihl skb \<le> 0x0F" unfolding ip_ihl_def by (rule word_and_le1)
  then show ?thesis by (simp add: word_le_nat_alt)
qed

lemma unat_ip_hdrlen: "unat (ip_hdrlen skb) = 4 * unat (ip_ihl skb)"
  using unat_ip_ihl_le [of skb]
  by (simp add: ip_hdrlen_def unat_word_ariths unat_ucast_8_32)

lemma ipv4_frameD:
  assumes "ipv4_frame skb"
  shows "network_header skb = 14" "20 \<le> unat (ip_hdrlen skb)" "unat (ip_hdrlen skb) \<le> 60"
    "unat (ip_hdrlen skb) \<le> unat (ip_tot_len skb)" "14 + unat (ip_tot_len skb) \<le> length (data skb)"
    "unat (ip_tot_len skb) < 65536"
proof -
  show "network_header skb = 14" "14 + unat (ip_tot_len skb) \<le> length (data skb)"
    using assms by (simp_all add: ipv4_frame_def)
  have "5 \<le> unat (ip_ihl skb)" using assms by (simp add: ipv4_frame_def word_le_nat_alt)
  then show "20 \<le> unat (ip_hdrlen skb)" by (simp add: unat_ip_hdrlen)
  show "unat (ip_hdrlen skb) \<le> 60" using unat_ip_ihl_le [of skb] by (simp add: unat_ip_hdrlen)
  show "unat (ip_hdrlen skb) \<le> unat (ip_tot_len skb)"
    using assms by (simp add: ipv4_frame_def word_le_nat_alt unat_ucast_16_32)
  show "unat (ip_tot_len skb) < 65536" by (rule unat_u16_less)
qed

lemma get_be16_append_eth: "length xs = 14 \<Longrightarrow> get_be16 (xs @ ys) (14 + i) = get_be16 ys i"
  using get_be16_append2 [of xs ys i] by simp

text \<open>Facts about one fragment built from a well-formed frame.\<close>

lemma build_frag_facts:
  fixes flag fo fl :: u32
  assumes wf: "ipv4_frame skb"
    and rng: "unat (ip_hdrlen skb) + unat fo + unat fl \<le> unat (ip_tot_len skb)"
  defines "frag \<equiv> build_frag skb (ip_hdrlen skb) flag fo fl"
  shows "network_header frag = 14"
    and "ip_hdrlen frag = ip_hdrlen skb"
    and "unat (ip_tot_len frag) = unat (ip_hdrlen skb) + unat fl"
    and "ip_frag_off frag = ucast (drop_bit 3 fo AND IP_OFFSET) OR ucast flag"
    and "ip_payload frag = take (unat fl) (drop (14 + unat (ip_hdrlen skb) + unat fo) (data skb))"
    and "length (ip_payload frag) = unat fl"
proof -
  note D = ipv4_frameD [OF wf]
  let ?hl = "ip_hdrlen skb"
  have r1: "14 + unat ?hl + unat fo + unat fl \<le> length (data skb)" using rng D(5) by simp
  have r2: "unat ?hl + unat fo < 65536" using rng D(6) by simp
  have len14: "length (take 14 (data skb)) = 14" using D(5) by simp
  have dat: "data frag = take 14 (data skb) @ frag_iph skb ?hl flag fo fl"
    by (simp add: frag_def data_build_frag skb_copy_bits_eth)
  show nh: "network_header frag = 14" by (simp add: frag_def network_header_build_frag)
  have "data frag ! 14 = data skb ! 14"
    using D(2) len14 by (simp add: dat nth_append frag_iph_nth0 [OF r1 r2])
  then have ihl: "ip_ihl frag = ip_ihl skb" by (simp add: ip_ihl_def nh D(1))
  then show hl: "ip_hdrlen frag = ?hl" by (simp add: ip_hdrlen_def)
  have "ip_tot_len frag = get_be16 (frag_iph skb ?hl flag fo fl) 2"
    using get_be16_append_eth [OF len14, of "frag_iph skb ?hl flag fo fl" 2]
    by (simp add: ip_tot_len_def nh dat)
  also have "\<dots> = ucast (?hl + fl)" using D(2) by (simp add: frag_iph_tot_len [OF r1 r2])
  finally have tl: "ip_tot_len frag = ucast (?hl + fl)" .
  have "unat (?hl + fl) = unat ?hl + unat fl" using rng D(6) by (simp add: unat_word_ariths)
  moreover have "unat ?hl + unat fl < 65536" using rng D(6) by simp
  ultimately show tl': "unat (ip_tot_len frag) = unat ?hl + unat fl"
    by (simp add: tl unsigned_ucast_eq take_bit_nat_eq_self)
  have "ip_frag_off frag = get_be16 (frag_iph skb ?hl flag fo fl) 6"
    using get_be16_append_eth [OF len14, of "frag_iph skb ?hl flag fo fl" 6]
    by (simp add: ip_frag_off_def nh dat)
  then show "ip_frag_off frag = ucast (drop_bit 3 fo AND IP_OFFSET) OR ucast flag"
    using D(2) by (simp add: frag_iph_frag_off [OF r1 r2])
  have "drop (14 + unat ?hl) (data frag) = drop (unat ?hl) (frag_iph skb ?hl flag fo fl)"
    using len14 by (simp add: dat)
  also have "\<dots> = take (unat fl) (drop (14 + unat ?hl + unat fo) (data skb))"
    using D(2) by (simp add: frag_iph_drop [OF r1 r2])
  finally have dr: "drop (14 + unat ?hl) (data frag) = take (unat fl) (drop (14 + unat ?hl + unat fo) (data skb))" .
  show pl: "ip_payload frag = take (unat fl) (drop (14 + unat ?hl + unat fo) (data skb))"
    by (simp add: ip_payload_def nh hl tl' dr)
  show "length (ip_payload frag) = unat fl" using r1 by (simp add: pl)
qed

subsection \<open>The loop: what a returning run has sent, and when it returns\<close>

lemma tx_log_send_direct:
  "tx_log (snd (ovs_vport_send_direct h skb st)) = tx_log st @ [skb]"
  by (simp add: ovs_vport_send_direct_def Let_def kfree_skb_def split: prod.splits)

lemma allocs_send_direct:
  "allocs (snd (ovs_vport_send_direct h skb st)) = allocs st"
  by (simp add: ovs_vport_send_direct_def Let_def kfree_skb_def split: prod.splits)

lemma loop_partial:
  assumes "ovs_vport_fragment_loop h skb hl fm flag left off sent st = Some y"
  shows "\<exists>frs as. tx_log (snd y) = tx_log st @ frs \<and> allocs (snd y) = allocs st @ as \<and>
           frag_seq (False \<notin> set as) skb hl fm flag left off frs"
proof (rule ovs_vport_fragment_loop.raw_induct
    [where P = "\<lambda>h skb hl fm flag left off sent st y.
       \<exists>frs as. tx_log (snd y) = tx_log st @ frs \<and> allocs (snd y) = allocs st @ as \<and>
           frag_seq (False \<notin> set as) skb hl fm flag left off frs", OF _ assms])
  fix loop :: "'a host \<Rightarrow> sk_buff \<Rightarrow> u32 \<Rightarrow> u32 \<Rightarrow> u32 \<Rightarrow> u32 \<Rightarrow> u32 \<Rightarrow> u32 \<Rightarrow> 'a kstate
     \<Rightarrow> (u32 \<times> 'a kstate) option"
    and h skb hl fm flag left off sent st y
  assume IH: "\<And>h skb hl fm flag left off sent st y. loop h skb hl fm flag left off sent st = Some y \<Longrightarrow>
      \<exists>frs as. tx_log (snd y) = tx_log st @ frs \<and> allocs (snd y) = allocs st @ as \<and>
           frag_seq (False \<notin> set as) skb hl fm flag left off frs"
    and body: "(if 0 < left
      then let flag = if fm < left then flag OR IP_MF else flag AND NOT IP_MF;
               frag_len = if fm < left then fm else left;
               len = ETH_HLEN + NET_IP_ALIGN + hl + frag_len;
               (ok, w) = alloc_skb h len (world st);
               st = st\<lparr>world := w, allocs := allocs st @ [ok]\<rparr>
           in if \<not> ok then Some (sent, st)
              else let frag = build_frag skb hl flag off frag_len;
                       (sent, st) = ovs_vport_send_direct h frag st
                   in loop h skb hl fm flag (left - frag_len) (off + frag_len) sent st
      else Some (sent, kfree_skb skb st)) = Some y"
  show "\<exists>frs as. tx_log (snd y) = tx_log st @ frs \<and> allocs (snd y) = allocs st @ as \<and>
           frag_seq (False \<notin> set as) skb hl fm flag left off frs"
  proof (cases "0 < left")
    case False
    then have "y = (sent, kfree_skb skb st)" "left = 0" using body by (auto simp: word_gt_0)
    then show ?thesis
      by (intro exI [of _ "[]"]) (simp add: kfree_skb_def)
  next
    case True
    let ?flag = "if fm < left then flag OR IP_MF else flag AND NOT IP_MF"
    let ?len = "if fm < left then fm else left"
    obtain ok w where al: "alloc_skb h (ETH_HLEN + NET_IP_ALIGN + hl + ?len) (world st) = (ok, w)"
      by (cases "alloc_skb h (ETH_HLEN + NET_IP_ALIGN + hl + ?len) (world st)")
    show ?thesis
    proof (cases ok)
      case False
      then have "y = (sent, st\<lparr>world := w, allocs := allocs st @ [False]\<rparr>)"
        using body True al by (simp add: Let_def)
      then show ?thesis
        by (intro exI [of _ "[]"] exI [of _ "[False]"]) simp
    next
      case ok: True
      let ?st = "st\<lparr>world := w, allocs := allocs st @ [True]\<rparr>"
      let ?frag = "build_frag skb hl ?flag off ?len"
      obtain s1 st1 where sd: "ovs_vport_send_direct h ?frag ?st = (s1, st1)"
        by (cases "ovs_vport_send_direct h ?frag ?st")
      have rec: "loop h skb hl fm ?flag (left - ?len) (off + ?len) s1 st1 = Some y"
        using body True al ok sd by (simp add: Let_def)
      from IH [OF rec] obtain frs as where
        frs: "tx_log (snd y) = tx_log st1 @ frs" "allocs (snd y) = allocs st1 @ as"
          "frag_seq (False \<notin> set as) skb hl fm ?flag (left - ?len) (off + ?len) frs"
        by blast
      have 1: "tx_log st1 = tx_log st @ [?frag]"
        using tx_log_send_direct [of h ?frag ?st] sd by simp
      have 2: "allocs st1 = allocs st @ [True]"
        using allocs_send_direct [of h ?frag ?st] sd by simp
      show ?thesis using frs True 1 2
        by (intro exI [of _ "?frag # frs"] exI [of _ "True # as"]) simp
    qed
  qed
qed

lemma loop_terminates:
  assumes "fm \<noteq> 0"
  shows "\<exists>y. ovs_vport_fragment_loop h skb hl fm flag left off sent st = Some y"
proof (induction "unat left" arbitrary: left flag off sent st rule: less_induct)
  case less
  show ?case
  proof (cases "0 < left")
    case False
    then show ?thesis by (subst ovs_vport_fragment_loop.simps) simp
  next
    case True
    let ?flag = "if fm < left then flag OR IP_MF else flag AND NOT IP_MF"
    let ?len = "if fm < left then fm else left"
    have "0 < unat ?len" using assms True by (auto simp: word_gt_0 unat_gt_0)
    moreover have "?len \<le> left" by (auto simp: word_less_def word_le_def)
    ultimately have dec: "unat (left - ?len) < unat left"
      using True by (simp add: unat_sub word_less_nat_alt)
    obtain ok w where al: "alloc_skb h (ETH_HLEN + NET_IP_ALIGN + hl + ?len) (world st) = (ok, w)"
      by (cases "alloc_skb h (ETH_HLEN + NET_IP_ALIGN + hl + ?len) (world st)")
    show ?thesis
    proof (cases ok)
      case False
      then show ?thesis using True al
        by (subst ovs_vport_fragment_loop.simps) (simp add: Let_def)
    next
      case ok: True
      let ?frag = "build_frag skb hl ?flag off ?len"
      obtain s1 st1 where sd: "ovs_vport_send_direct h ?frag (st\<lparr>world := w, allocs := allocs st @ [ok]\<rparr>) = (s1, st1)"
        by (cases "ovs_vport_send_direct h ?frag (st\<lparr>world := w, allocs := allocs st @ [ok]\<rparr>)")
      from less [OF dec, of ?flag "off + ?len" s1 st1] show ?thesis using True al ok sd
        by (subst ovs_vport_fragment_loop.simps) (simp add: Let_def)
    qed
  qed
qed

text \<open>
  With a fragment size of zero and an allocator that never fails the loop makes no
  progress and never returns.
\<close>

lemma loop_diverges:
  assumes "\<forall>len w. fst (alloc_skb h len w)" and "0 < left"
  shows "ovs_vport_fragment_loop h skb hl 0 flag left off sent st = None"
proof (rule ccontr)
  assume "ovs_vport_fragment_loop h skb hl 0 flag left off sent st \<noteq> None"
  then obtain y where y: "ovs_vport_fragment_loop h skb hl 0 flag left off sent st = Some y" by auto
  have "\<not> ((\<forall>len w. fst (alloc_skb h len w)) \<and> (0::u32) = 0 \<and> 0 < left)"
  proof (rule ovs_vport_fragment_loop.raw_induct
      [where P = "\<lambda>h skb hl fm flag left off sent st y.
         \<not> ((\<forall>len w. fst (alloc_skb h len w)) \<and> fm = 0 \<and> 0 < left)", OF _ y])
    fix loop :: "'a host \<Rightarrow> sk_buff \<Rightarrow> u32 \<Rightarrow> u32 \<Rightarrow> u32 \<Rightarrow> u32 \<Rightarrow> u32 \<Rightarrow> u32 \<Rightarrow> 'a kstate
       \<Rightarrow> (u32 \<times> 'a kstate) option"
      and h skb hl fm flag left off sent st y
    assume IH: "\<And>h skb hl fm flag left off sent st y. loop h skb hl fm flag left off sent st = Some y \<Longrightarrow>
        \<not> ((\<forall>len w. fst (alloc_skb h len w)) \<and> fm = 0 \<and> 0 < left)"
      and body: "(if 0 < left
        then let flag = if fm < left then flag OR IP_MF else flag AND NOT IP_MF;
                 frag_len = if fm < left then fm else left;
                 len = ETH_HLEN + NET_IP_ALIGN + hl + frag_len;
                 (ok, w) = alloc_skb h len (world st);
                 st = st\<lparr>world := w, allocs := allocs st @ [ok]\<rparr>
             in if \<not> ok then Some (sent, st)
                else let frag = build_frag skb hl flag off frag_len;
                         (sent, st) = ovs_vport_send_direct h frag st
                     in loop h skb hl fm flag (left - frag_len) (off + frag_len) sent st
        else Some (sent, kfree_skb skb st)) = Some y"
    show "\<not> ((\<forall>len w. fst (alloc_skb h len w)) \<and> fm = 0 \<and> 0 < left)"
    proof
      assume a: "(\<forall>len w. fst (alloc_skb h len w)) \<and> fm = 0 \<and> 0 < left"
      obtain ok w where al: "alloc_skb h (ETH_HLEN + NET_IP_ALIGN + hl + 0) (world st) = (ok, w)"
        by (cases "alloc_skb h (ETH_HLEN + NET_IP_ALIGN + hl + 0) (world st)")
      then have ok: ok using a by (metis fst_conv)
      obtain s1 st1 where sd:
        "ovs_vport_send_direct h (build_frag skb hl (flag OR IP_MF) off 0) (st\<lparr>world := w, allocs := allocs st @ [ok]\<rparr>) = (s1, st1)"
        by (cases "ovs_vport_send_direct h (build_frag skb hl (flag OR IP_MF) off 0) (st\<lparr>world := w, allocs := allocs st @ [ok]\<rparr>)")
      have "loop h skb hl fm (flag OR IP_MF) left off s1 st1 = Some y"
        using body a al ok sd by (simp add: Let_def)
      from IH [OF this] a show False by simp
    qed
  qed
  then show False using assms by simp
qed

subsection \<open>The bits of the \<^verbatim>\<open>frag_off\<close> field\<close>

lemma IP_OFFSET_mask: "IP_OFFSET = mask 13"
  by (simp add: IP_OFFSET_def mask_eq_exp_minus_1)

lemma off_field_take_bit: "off_field off = take_bit 13 (ucast (drop_bit 3 off))"
  unfolding off_field_def IP_OFFSET_mask
  by (rule bit_word_eqI) (auto simp add: bit_simps)

lemma u16_consts: "(0x1FFF :: u16) = mask 13" "(0x2000 :: u16) = push_bit 13 1"
  "(0x4000 :: u16) = push_bit 14 1" "(0x8000 :: u16) = push_bit 15 1"
  by (simp_all add: mask_eq_exp_minus_1)

lemma take_bit_and_push_bit_0:
  fixes x y :: "'a::len word"
  shows "n \<le> m \<Longrightarrow> take_bit n x AND push_bit m y = 0"
  by (rule bit_word_eqI) (auto simp add: bit_simps)

lemma take_bit_and_mask_self:
  fixes x :: "'a::len word"
  shows "take_bit n x AND mask n = take_bit n x"
  by (rule bit_word_eqI) (auto simp add: bit_simps)

lemma off_field_and:
  "off_field off AND 0x1FFF = off_field off"
  "off_field off AND 0x2000 = 0"
  "off_field off AND 0x4000 = 0"
  "off_field off AND 0x8000 = 0"
  unfolding off_field_take_bit u16_consts
  by (simp_all only: take_bit_and_push_bit_0 take_bit_and_mask_self)

lemma unat_off_field:
  assumes "unat off < 65536"
  shows "unat (off_field off) = unat off div 8"
proof -
  have "unat (drop_bit 3 off) = drop_bit 3 (unat off)" by (rule unat_drop_bit_eq)
  also have "\<dots> = unat off div 8" by (simp add: drop_bit_eq_div)
  finally have d: "unat (drop_bit 3 off) = unat off div 8" .
  then have lt: "unat (drop_bit 3 off) < 8192" using assms by simp
  have "unat (off_field off) = take_bit 13 (take_bit 16 (unat (drop_bit 3 off)))"
    unfolding off_field_take_bit by (simp add: unsigned_take_bit_eq unsigned_ucast_eq)
  also have "\<dots> = unat (drop_bit 3 off)" using lt by (simp add: take_bit_nat_eq_self)
  finally show ?thesis using d by simp
qed

lemma flag_cases:
  fixes flag :: u32
  assumes "flag \<in> {0, 0x2000, 0x4000, 0x6000}"
  shows "flag OR IP_MF \<in> {0, 0x2000, 0x4000, 0x6000}" "flag AND NOT IP_MF \<in> {0, 0x2000, 0x4000, 0x6000}"
    "(flag OR IP_MF) AND 0x4000 = flag AND 0x4000" "(flag AND NOT IP_MF) AND 0x4000 = flag AND 0x4000"
  using assms by (auto simp: IP_MF_def)

lemma frag_off_bits:
  fixes flag off :: u32
  assumes "flag \<in> {0, 0x2000, 0x4000, 0x6000}"
  defines "X \<equiv> off_field off OR ucast flag"
  shows "X AND 0x1FFF = off_field off"
    and "X AND 0x2000 = ucast (flag AND 0x2000)"
    and "X AND 0x4000 = ucast (flag AND 0x4000)"
    and "X AND 0x8000 = 0"
  using assms(1) unfolding X_def
  by (auto simp add: bit.conj_disj_distrib2 off_field_and)

subsection \<open>The chain of fragments under the loop invariant\<close>

lemma and_not_mask_push_drop:
  fixes x :: "'a::len word"
  shows "x AND NOT (mask n) = push_bit n (drop_bit n x)"
  by (rule bit_word_eqI) (auto simp add: bit_simps)

lemma unat_and_not_7:
  fixes x :: u32
  shows "unat (x AND NOT 7) = 8 * (unat x div 8)"
proof -
  have 7: "(7 :: u32) = mask 3" by (simp add: mask_eq_exp_minus_1)
  have "unat (drop_bit 3 x) = drop_bit 3 (unat x)" by (rule unat_drop_bit_eq)
  then have d: "unat (drop_bit 3 x) = unat x div 8" by (simp add: drop_bit_eq_div)
  have "unat x < 2 ^ LENGTH(32)" by (rule unsigned_less)
  then have lt: "8 * (unat x div 8) < 2 ^ 32" by simp
  have "unat (x AND NOT 7) = unat (push_bit 3 (drop_bit 3 x))"
    unfolding 7 and_not_mask_push_drop ..
  also have "\<dots> = take_bit 32 (push_bit 3 (unat (drop_bit 3 x)))"
    by (simp add: unsigned_push_bit_eq)
  also have "\<dots> = take_bit 32 (8 * (unat x div 8))" by (simp add: d push_bit_eq_mult mult.commute)
  also have "\<dots> = 8 * (unat x div 8)" using lt by (simp add: take_bit_nat_eq_self)
  finally show ?thesis .
qed

lemma frag_seq_Cons_cases:
  assumes fs: "frag_seq c skb (ip_hdrlen skb) fm flag left off (f # fs)"
    and inv: "chain_inv skb fm flag left off"
  obtains
    (more) "fm < left" "unat fm < unat left"
      "f = build_frag skb (ip_hdrlen skb) (flag OR IP_MF) off fm"
      "frag_seq c skb (ip_hdrlen skb) fm (flag OR IP_MF) (left - fm) (off + fm) fs"
      "chain_inv skb fm (flag OR IP_MF) (left - fm) (off + fm)"
      "unat (left - fm) = unat left - unat fm" "unat (off + fm) = unat off + unat fm"
      "unat (ip_hdrlen skb) + unat off + unat fm \<le> unat (ip_tot_len skb)"
  | (last) "\<not> fm < left" "0 < unat left" "fs = []"
      "f = build_frag skb (ip_hdrlen skb) (flag AND NOT IP_MF) off left"
      "flag AND NOT IP_MF \<in> {0, 0x2000, 0x4000, 0x6000}"
proof (cases "fm < left")
  case True
  note D = ipv4_frameD [of skb]
  have wf: "ipv4_frame skb" and rng: "unat (ip_hdrlen skb) + unat off + unat left \<le> unat (ip_tot_len skb)"
    and d8: "8 dvd unat off" "8 dvd unat fm" and fl: "flag \<in> {0, 0x2000, 0x4000, 0x6000}"
    using inv by (simp_all add: chain_inv_def)
  have lt: "unat fm < unat left" using True by (simp add: word_less_nat_alt)
  have s1: "unat (left - fm) = unat left - unat fm" using True by (simp add: unat_sub)
  have "unat off + unat fm < 2 ^ 32" using rng lt D(6) [OF wf] by simp
  then have s2: "unat (off + fm) = unat off + unat fm" by (simp add: unat_word_ariths)
  have "chain_inv skb fm (flag OR IP_MF) (left - fm) (off + fm)"
    using wf rng d8 lt flag_cases(1) [OF fl] by (simp add: chain_inv_def s1 s2)
  moreover have "unat (ip_hdrlen skb) + unat off + unat fm \<le> unat (ip_tot_len skb)" using rng lt by simp
  ultimately show ?thesis using more [OF True lt] fs True s1 s2 by simp
next
  case False
  have fl: "flag \<in> {0, 0x2000, 0x4000, 0x6000}" using inv by (simp add: chain_inv_def)
  have "0 < left" using fs by simp
  then have l0: "0 < unat left" by (simp add: word_less_nat_alt)
  have "frag_seq c skb (ip_hdrlen skb) fm (flag AND NOT IP_MF) 0 (off + left) fs" using fs False by simp
  then have "fs = []" by (cases fs) simp_all
  then show ?thesis using last [OF False l0] fs False flag_cases(2) [OF fl] by simp
qed

lemma chain_inv_range_last:
  "chain_inv skb fm flag left off \<Longrightarrow> ipv4_frame skb \<and>
     unat (ip_hdrlen skb) + unat off + unat left \<le> unat (ip_tot_len skb)"
  by (simp add: chain_inv_def)

lemma chain_inv_off:
  "chain_inv skb fm flag left off \<Longrightarrow> 8 dvd unat off \<and> unat off < 65536"
  using unat_u16_less [of "ip_tot_len skb"] by (simp add: chain_inv_def)

lemma chain_payload:
  assumes "frag_seq True skb (ip_hdrlen skb) fm flag left off frs" "chain_inv skb fm flag left off"
  shows "concat (map ip_payload frs) =
           take (unat left) (drop (14 + unat (ip_hdrlen skb) + unat off) (data skb))"
  using assms
proof (induction frs arbitrary: flag left off)
  case Nil
  then show ?case by simp
next
  case (Cons f fs)
  from Cons.prems show ?case
  proof (cases rule: frag_seq_Cons_cases)
    case more
    have wf: "ipv4_frame skb" using Cons.prems(2) by (simp add: chain_inv_def)
    have "ip_payload f = take (unat fm) (drop (14 + unat (ip_hdrlen skb) + unat off) (data skb))"
      unfolding more(3) by (rule build_frag_facts(5) [OF wf more(8)])
    moreover have "concat (map ip_payload fs) =
        take (unat left - unat fm) (drop (14 + unat (ip_hdrlen skb) + (unat off + unat fm)) (data skb))"
      using Cons.IH [OF more(4,5)] by (simp add: more(6,7))
    moreover have "take (unat fm + (unat left - unat fm)) (drop (14 + unat (ip_hdrlen skb) + unat off) (data skb)) =
        take (unat fm) (drop (14 + unat (ip_hdrlen skb) + unat off) (data skb)) @
        take (unat left - unat fm) (drop (unat fm) (drop (14 + unat (ip_hdrlen skb) + unat off) (data skb)))"
      by (rule take_add)
    moreover have "drop (unat fm) (drop (14 + unat (ip_hdrlen skb) + unat off) (data skb)) =
        drop (14 + unat (ip_hdrlen skb) + (unat off + unat fm)) (data skb)"
      by (simp add: ac_simps)
    moreover have "unat fm + (unat left - unat fm) = unat left" using more(2) by simp
    ultimately show ?thesis by simp
  next
    case last
    have r: "ipv4_frame skb" "unat (ip_hdrlen skb) + unat off + unat left \<le> unat (ip_tot_len skb)"
      using chain_inv_range_last [OF Cons.prems(2)] by simp_all
    show ?thesis unfolding last(3,4) using build_frag_facts(5) [OF r] by simp
  qed
qed

lemma chain_tot_len:
  assumes "frag_seq c skb (ip_hdrlen skb) fm flag left off frs" "chain_inv skb fm flag left off"
    and "f \<in> set frs"
  shows "unat (ip_tot_len f) = unat (ip_hdrlen f) + length (ip_payload f) \<and>
         ip_hdrlen f = ip_hdrlen skb \<and> network_header f = 14"
  using assms
proof (induction frs arbitrary: flag left off)
  case Nil
  then show ?case by simp
next
  case (Cons g fs)
  from Cons.prems(1,2) show ?case
  proof (cases rule: frag_seq_Cons_cases)
    case more
    have wf: "ipv4_frame skb" using Cons.prems(2) by (simp add: chain_inv_def)
    show ?thesis
    proof (cases "f = g")
      case True
      then show ?thesis unfolding more(3) using build_frag_facts [OF wf more(8)] by simp
    next
      case False
      then have "f \<in> set fs" using Cons.prems(3) by simp
      then show ?thesis using Cons.IH [OF more(4,5)] by simp
    qed
  next
    case last
    have r: "ipv4_frame skb" "unat (ip_hdrlen skb) + unat off + unat left \<le> unat (ip_tot_len skb)"
      using chain_inv_range_last [OF Cons.prems(2)] by simp_all
    have "f = g" using Cons.prems(3) last(3) by simp
    then show ?thesis unfolding last(4) using build_frag_facts [OF r] by simp
  qed
qed

lemma flag_mf:
  fixes flag :: u32
  assumes "flag \<in> {0, 0x2000, 0x4000, 0x6000}"
  shows "(flag OR IP_MF) AND 0x2000 \<noteq> 0" "(flag AND NOT IP_MF) AND 0x2000 = 0"
  using assms by (auto simp: IP_MF_def)

lemma build_frag_off_bits:
  fixes flag off fl :: u32
  assumes wf: "ipv4_frame skb"
    and rng: "unat (ip_hdrlen skb) + unat off + unat fl \<le> unat (ip_tot_len skb)"
    and fl: "flag \<in> {0, 0x2000, 0x4000, 0x6000}"
    and d8: "8 dvd unat off"
  defines "f \<equiv> build_frag skb (ip_hdrlen skb) flag off fl"
  shows "8 * unat (ip_frag_off f AND 0x1FFF) = unat off"
    and "(ip_frag_off f AND 0x2000 \<noteq> 0) = (flag AND 0x2000 \<noteq> 0)"
    and "ip_frag_off f AND 0x4000 = ucast (flag AND 0x4000)"
    and "ip_frag_off f AND 0x8000 = 0"
proof -
  have fo: "ip_frag_off f = off_field off OR ucast flag"
    unfolding f_def off_field_def by (rule build_frag_facts(4) [OF wf rng])
  have lt: "unat off < 65536" using rng unat_u16_less [of "ip_tot_len skb"] by simp
  show "8 * unat (ip_frag_off f AND 0x1FFF) = unat off"
    using d8 by (simp add: fo frag_off_bits(1) [OF fl] unat_off_field [OF lt])
  show "(ip_frag_off f AND 0x2000 \<noteq> 0) = (flag AND 0x2000 \<noteq> 0)"
    unfolding fo frag_off_bits(2) [OF fl] using fl by auto
  show "ip_frag_off f AND 0x4000 = ucast (flag AND 0x4000)"
    unfolding fo by (rule frag_off_bits(3) [OF fl])
  show "ip_frag_off f AND 0x8000 = 0"
    unfolding fo by (rule frag_off_bits(4) [OF fl])
qed

lemma chain_inv_flag: "chain_inv skb fm flag left off \<Longrightarrow> flag \<in> {0, 0x2000, 0x4000, 0x6000}"
  by (simp add: chain_inv_def)

lemma chain_payload_length:
  assumes "frag_seq c skb (ip_hdrlen skb) fm flag left off (f # fs)" "chain_inv skb fm flag left off"
  shows "length (ip_payload f) = (if fm < left then unat fm else unat left)"
  using assms
proof (cases rule: frag_seq_Cons_cases)
  case more
  have wf: "ipv4_frame skb" using assms(2) by (simp add: chain_inv_def)
  show ?thesis unfolding more(3) using build_frag_facts(6) [OF wf more(8)] more(1) by simp
next
  case last
  have r: "ipv4_frame skb" "unat (ip_hdrlen skb) + unat off + unat left \<le> unat (ip_tot_len skb)"
    using chain_inv_range_last [OF assms(2)] by simp_all
  show ?thesis unfolding last(4) using build_frag_facts(6) [OF r] last(1) by simp
qed

text \<open>The offset field counts the payload bytes emitted before the fragment.\<close>

lemma chain_offset:
  assumes "frag_seq c skb (ip_hdrlen skb) fm flag left off frs" "chain_inv skb fm flag left off"
    and "i < length frs"
  shows "8 * unat (ip_frag_off (frs ! i) AND 0x1FFF) =
           unat off + length (concat (map ip_payload (take i frs)))"
  using assms
proof (induction frs arbitrary: flag left off i)
  case Nil
  then show ?case by simp
next
  case (Cons f fs)
  note len = chain_payload_length [OF Cons.prems(1,2)]
  from Cons.prems(1,2) show ?case
  proof (cases rule: frag_seq_Cons_cases)
    case more
    have wf: "ipv4_frame skb" using Cons.prems(2) by (simp add: chain_inv_def)
    show ?thesis
    proof (cases i)
      case 0
      then show ?thesis unfolding more(3)
        using build_frag_off_bits(1) [OF wf more(8) flag_cases(1) [OF chain_inv_flag [OF Cons.prems(2)]]]
          chain_inv_off [OF Cons.prems(2)] by simp
    next
      case (Suc j)
      then have "j < length fs" using Cons.prems(3) by simp
      from Cons.IH [OF more(4,5) this] show ?thesis using Suc len more(1) by (simp add: more(7))
    qed
  next
    case last
    have r: "ipv4_frame skb" "unat (ip_hdrlen skb) + unat off + unat left \<le> unat (ip_tot_len skb)"
      using chain_inv_range_last [OF Cons.prems(2)] by simp_all
    have "i = 0" using Cons.prems(3) last(3) by simp
    then show ?thesis unfolding last(4)
      using build_frag_off_bits(1) [OF r last(5)] chain_inv_off [OF Cons.prems(2)] by simp
  qed
qed

text \<open>The more-fragments flag is set exactly while payload remains after the fragment.\<close>

lemma chain_more_frags:
  assumes "frag_seq c skb (ip_hdrlen skb) fm flag left off frs" "chain_inv skb fm flag left off"
    and "i < length frs"
  shows "(ip_frag_off (frs ! i) AND 0x2000 \<noteq> 0) =
           (length (concat (map ip_payload (take (Suc i) frs))) < unat left)"
  using assms
proof (induction frs arbitrary: flag left off i)
  case Nil
  then show ?case by simp
next
  case (Cons f fs)
  note len = chain_payload_length [OF Cons.prems(1,2)]
  note fl = chain_inv_flag [OF Cons.prems(2)]
  from Cons.prems(1,2) show ?case
  proof (cases rule: frag_seq_Cons_cases)
    case more
    have wf: "ipv4_frame skb" using Cons.prems(2) by (simp add: chain_inv_def)
    show ?thesis
    proof (cases i)
      case 0
      have "ip_frag_off f AND 0x2000 \<noteq> 0" unfolding more(3)
        using build_frag_off_bits(2) [OF wf more(8) flag_cases(1) [OF fl]]
          chain_inv_off [OF Cons.prems(2)] flag_mf(1) [OF fl] by simp
      then show ?thesis using 0 len more(1,2) by simp
    next
      case (Suc j)
      then have "j < length fs" using Cons.prems(3) by simp
      from Cons.IH [OF more(4,5) this] show ?thesis using Suc len more(1,2) by (auto simp add: more(6))
    qed
  next
    case last
    have r: "ipv4_frame skb" "unat (ip_hdrlen skb) + unat off + unat left \<le> unat (ip_tot_len skb)"
      using chain_inv_range_last [OF Cons.prems(2)] by simp_all
    have i: "i = 0" using Cons.prems(3) last(3) by simp
    have "ip_frag_off f AND 0x2000 = 0" unfolding last(4)
      using build_frag_off_bits(2) [OF r last(5)] chain_inv_off [OF Cons.prems(2)] flag_mf(2) [OF fl] by simp
    then show ?thesis using i len last(1,3) by simp
  qed
qed

text \<open>Of the flag word only the don't-fragment bit of the start value reaches a fragment.\<close>

lemma chain_dont_frag:
  assumes "frag_seq c skb (ip_hdrlen skb) fm flag left off frs" "chain_inv skb fm flag left off"
    and "f \<in> set frs"
  shows "ip_frag_off f AND 0x4000 = ucast (flag AND 0x4000) \<and> ip_frag_off f AND 0x8000 = 0"
  using assms
proof (induction frs arbitrary: flag left off)
  case Nil
  then show ?case by simp
next
  case (Cons g fs)
  note fl = chain_inv_flag [OF Cons.prems(2)]
  from Cons.prems(1,2) show ?case
  proof (cases rule: frag_seq_Cons_cases)
    case more
    have wf: "ipv4_frame skb" using Cons.prems(2) by (simp add: chain_inv_def)
    show ?thesis
    proof (cases "f = g")
      case True
      then show ?thesis unfolding more(3)
        using build_frag_off_bits(3,4) [OF wf more(8) flag_cases(1) [OF fl]]
          chain_inv_off [OF Cons.prems(2)] flag_cases(3) [OF fl] by simp
    next
      case False
      then have "f \<in> set fs" using Cons.prems(3) by simp
      from Cons.IH [OF more(4,5) this] show ?thesis using flag_cases(3) [OF fl] by simp
    qed
  next
    case last
    have r: "ipv4_frame skb" "unat (ip_hdrlen skb) + unat off + unat left \<le> unat (ip_tot_len skb)"
      using chain_inv_range_last [OF Cons.prems(2)] by simp_all
    have "f = g" using Cons.prems(3) last(3) by simp
    then show ?thesis unfolding last(4)
      using build_frag_off_bits(3,4) [OF r last(5)] chain_inv_off [OF Cons.prems(2)]
        flag_cases(4) [OF fl] by simp
  qed
qed

text \<open>In a complete run every fragment but the last carries \<open>frag_max\<close> bytes and has the
  more-fragments flag set.\<close>

lemma chain_complete:
  assumes "frag_seq True skb (ip_hdrlen skb) fm flag left off frs" "chain_inv skb fm flag left off"
    and "i < length frs"
  shows "(ip_frag_off (frs ! i) AND 0x2000 \<noteq> 0) = (Suc i < length frs) \<and>
         (Suc i < length frs \<longrightarrow> length (ip_payload (frs ! i)) = unat fm)"
  using assms
proof (induction frs arbitrary: flag left off i)
  case Nil
  then show ?case by simp
next
  case (Cons f fs)
  note len = chain_payload_length [OF Cons.prems(1,2)]
  note fl = chain_inv_flag [OF Cons.prems(2)]
  from Cons.prems(1,2) show ?case
  proof (cases rule: frag_seq_Cons_cases)
    case more
    have wf: "ipv4_frame skb" using Cons.prems(2) by (simp add: chain_inv_def)
    have "left - fm \<noteq> 0" using more(2,6) by (simp add: unat_eq_zero [symmetric])
    then have ne: "fs \<noteq> []" using more(4) by (cases fs) auto
    show ?thesis
    proof (cases i)
      case 0
      have "ip_frag_off f AND 0x2000 \<noteq> 0" unfolding more(3)
        using build_frag_off_bits(2) [OF wf more(8) flag_cases(1) [OF fl]]
          chain_inv_off [OF Cons.prems(2)] flag_mf(1) [OF fl] by simp
      then show ?thesis using 0 len more(1) ne by simp
    next
      case (Suc j)
      then have "j < length fs" using Cons.prems(3) by simp
      from Cons.IH [OF more(4,5) this] show ?thesis using Suc by simp
    qed
  next
    case last
    have r: "ipv4_frame skb" "unat (ip_hdrlen skb) + unat off + unat left \<le> unat (ip_tot_len skb)"
      using chain_inv_range_last [OF Cons.prems(2)] by simp_all
    have i: "i = 0" using Cons.prems(3) last(3) by simp
    have "ip_frag_off f AND 0x2000 = 0" unfolding last(4)
      using build_frag_off_bits(2) [OF r last(5)] chain_inv_off [OF Cons.prems(2)] flag_mf(2) [OF fl] by simp
    then show ?thesis using i last(3) by simp
  qed
qed

subsection \<open>The start values of \<^verbatim>\<open>ovs_vport_fragment\<close>\<close>

lemma and_exp_cases:
  fixes x :: "'a::len word"
  shows "x AND 2 ^ n = 0 \<or> x AND 2 ^ n = 2 ^ n"
proof (cases "bit x n")
  case True
  have "x AND 2 ^ n = 2 ^ n"
    by (rule bit_word_eqI) (use True in \<open>auto simp add: bit_simps\<close>)
  then show ?thesis ..
next
  case False
  then show ?thesis by (simp add: and_exp_eq_0_iff_not_bit)
qed

lemma ucast_and_exp_u16:
  fixes y :: u16
  shows "ucast ((ucast y :: u32) AND 2 ^ n) = y AND 2 ^ n"
  by (rule bit_word_eqI) (auto simp add: bit_simps)

lemma init_flag:
  fixes y :: u16
  shows "ucast y AND IP_DF \<in> {0, 0x2000, 0x4000, 0x6000 :: u32}"
    and "ucast ((ucast y AND IP_DF) AND (0x4000 :: u32)) = y AND 0x4000"
proof -
  have e: "IP_DF = 2 ^ 14" by (simp add: IP_DF_def)
  show "ucast y AND IP_DF \<in> {0, 0x2000, 0x4000, 0x6000 :: u32}"
    using and_exp_cases [of "ucast y :: u32" 14] by (auto simp add: e)
  have "ucast ((ucast y :: u32) AND 2 ^ 14) = y AND 2 ^ 14" by (rule ucast_and_exp_u16)
  then show "ucast ((ucast y AND IP_DF) AND (0x4000 :: u32)) = y AND 0x4000"
    by (simp add: e and.assoc)
qed

lemma unat_and_minus_8:
  fixes x :: u32
  shows "unat (x AND - 8) = 8 * (unat x div 8)"
  using unat_and_not_7 [of x] by simp

lemma init_left:
  assumes wf: "ipv4_frame skb"
  shows "unat (ucast (ip_tot_len skb) - ip_hdrlen skb :: u32) = unat (ip_tot_len skb) - unat (ip_hdrlen skb)"
proof -
  have "ip_hdrlen skb \<le> ucast (ip_tot_len skb)" using wf by (simp add: ipv4_frame_def)
  then show ?thesis by (simp add: unat_sub unat_ucast_16_32)
qed

lemma init_chain_inv:
  assumes wf: "ipv4_frame skb"
  shows "chain_inv skb (x AND NOT 7) (ucast (ip_frag_off skb) AND IP_DF)
           (ucast (ip_tot_len skb) - ip_hdrlen skb) 0"
proof -
  note D = ipv4_frameD [OF wf]
  show ?thesis
    unfolding chain_inv_def using wf D(4) init_flag(1) [of "ip_frag_off skb"]
    by (simp add: init_left [OF wf] unat_and_minus_8)
qed

lemma ip_payload_orig:
  assumes "ipv4_frame skb"
  shows "ip_payload skb =
     take (unat (ip_tot_len skb) - unat (ip_hdrlen skb)) (drop (14 + unat (ip_hdrlen skb)) (data skb))"
    and "length (ip_payload skb) = unat (ip_tot_len skb) - unat (ip_hdrlen skb)"
  using ipv4_frameD [OF assms] by (simp_all add: ip_payload_def)

text \<open>Any run that returns has emitted a chain of fragments.\<close>

lemma fragment_returns_chain:
  assumes "ovs_vport_fragment h skb fms mtu st = Some y"
  shows "\<exists>frs as. tx_log (snd y) = tx_log st @ frs \<and> allocs (snd y) = allocs st @ as \<and>
     frag_seq (False \<notin> set as) skb (ip_hdrlen skb)
       (((if 0 < fms then fms else mtu) - ip_hdrlen skb) AND NOT 7)
       (ucast (ip_frag_off skb) AND IP_DF) (ucast (ip_tot_len skb) - ip_hdrlen skb) 0 frs"
  using assms unfolding ovs_vport_fragment_def Let_def by (rule loop_partial)

lemma fragment_terminates:
  assumes "((if 0 < fms then fms else mtu) - ip_hdrlen skb) AND NOT 7 \<noteq> 0"
  shows "\<exists>y. ovs_vport_fragment h skb fms mtu st = Some y"
  unfolding ovs_vport_fragment_def Let_def by (rule loop_terminates [OF assms])

lemma frag_max_nonzero:
  fixes c hl :: u32
  assumes "unat hl + 8 \<le> unat c"
  shows "(c - hl) AND NOT 7 \<noteq> 0" "unat ((c - hl) AND NOT 7) = 8 * ((unat c - unat hl) div 8)"
proof -
  have "hl \<le> c" using assms by (simp add: word_le_nat_alt)
  then have "unat (c - hl) = unat c - unat hl" by (simp add: unat_sub)
  then show u: "unat ((c - hl) AND NOT 7) = 8 * ((unat c - unat hl) div 8)" by (simp add: unat_and_minus_8)
  have "8 \<le> unat c - unat hl" using assms by simp
  then have "0 < (unat c - unat hl) div 8" by (simp add: div_greater_zero_iff)
  then have "unat ((c - hl) AND NOT 7) \<noteq> 0" using u by simp
  then show "(c - hl) AND NOT 7 \<noteq> 0" by (simp add: unat_eq_zero)
qed

text \<open>No fragment carries more than \<open>frag_max\<close> bytes, and a complete run that starts with
  more than \<open>frag_max\<close> bytes left sends at least two fragments.\<close>

lemma chain_fits:
  assumes "frag_seq c skb (ip_hdrlen skb) fm flag left off frs" "chain_inv skb fm flag left off"
    and "f \<in> set frs"
  shows "length (ip_payload f) \<le> unat fm"
  using assms
proof (induction frs arbitrary: flag left off)
  case Nil
  then show ?case by simp
next
  case (Cons g fs)
  note len = chain_payload_length [OF Cons.prems(1,2)]
  from Cons.prems(1,2) show ?case
  proof (cases rule: frag_seq_Cons_cases)
    case more
    show ?thesis
    proof (cases "f = g")
      case True
      then show ?thesis using len more(1) by simp
    next
      case False
      then have "f \<in> set fs" using Cons.prems(3) by simp
      then show ?thesis using Cons.IH [OF more(4,5)] by simp
    qed
  next
    case last
    have "f = g" using Cons.prems(3) last(3) by simp
    moreover have "unat left \<le> unat fm" using last(1) by (simp add: word_less_nat_alt)
    ultimately show ?thesis using len last(1) by simp
  qed
qed

lemma chain_two:
  assumes "frag_seq True skb (ip_hdrlen skb) fm flag left off frs" "chain_inv skb fm flag left off"
    and "fm < left"
  shows "2 \<le> length frs"
proof (cases frs)
  case Nil
  then have "left = 0" using assms(1) by simp
  then show ?thesis using assms(3) by simp
next
  case (Cons f fs)
  from assms(1,2) [unfolded Cons] show ?thesis
  proof (cases rule: frag_seq_Cons_cases)
    case more
    have "left - fm \<noteq> 0" using more(2,6) by (simp add: unat_eq_zero [symmetric])
    then have "fs \<noteq> []" using more(4) by (cases fs) auto
    then show ?thesis using Cons by (cases fs) simp_all
  next
    case last
    then show ?thesis using assms(3) by simp
  qed
qed

text \<open>
  On a well-formed frame and with a ceiling that leaves room for 8 payload bytes, every run
  returns, whatever the allocator does, and what it sent is a chain of fragments that is
  complete when none of its allocations failed.
\<close>

lemma fragment_run:
  assumes wf: "ipv4_frame skb"
    and room: "unat (ip_hdrlen skb) + 8 \<le> unat (if 0 < fms then fms else mtu)"
  shows "\<exists>r st' frs as. ovs_vport_fragment h skb fms mtu st = Some (r, st') \<and>
     tx_log st' = tx_log st @ frs \<and> allocs st' = allocs st @ as \<and>
     frag_seq (False \<notin> set as) skb (ip_hdrlen skb)
       (((if 0 < fms then fms else mtu) - ip_hdrlen skb) AND NOT 7)
       (ucast (ip_frag_off skb) AND IP_DF) (ucast (ip_tot_len skb) - ip_hdrlen skb) 0 frs"
proof -
  from fragment_terminates [OF frag_max_nonzero(1) [OF room]]
  obtain y where y: "ovs_vport_fragment h skb fms mtu st = Some y" by blast
  obtain r st' where yy: "y = (r, st')" by (cases y)
  from fragment_returns_chain [OF y] show ?thesis using y unfolding yy by auto
qed

lemma fst_send_direct:
  "fst (ovs_vport_send_direct h skb st) = fst (ops_send h (vp st) skb (world st))"
  by (simp add: ovs_vport_send_direct_def Let_def split: prod.splits)

section \<open>Properties of the transmit path\<close>

text \<open>
  Claim C6. A direct send passes the backend's result through unchanged. When the result
  is positive, this CPU's slot gains one packet and that many bytes, and neither the error
  counters nor the released buffers change. When it is negative, \<^verbatim>\<open>tx_errors\<close> gains one
  and the buffer is released. When it is zero, \<^verbatim>\<open>tx_dropped\<close> gains one and the buffer is
  not released.
\<close>

theorem ovs_vport_send_direct_accounting:
  assumes "ops_send h (vp st) skb (world st) = (n, w)"
    and "this_cpu h < length (percpu_stats (vp st))"
  shows "fst (ovs_vport_send_direct h skb st) = n \<and>
         (0 < sint n \<longrightarrow>
            percpu_stats (vp (snd (ovs_vport_send_direct h skb st))) ! this_cpu h =
              (percpu_stats (vp st) ! this_cpu h)
                \<lparr>p_tx_packets := p_tx_packets (percpu_stats (vp st) ! this_cpu h) + 1,
                 p_tx_bytes := p_tx_bytes (percpu_stats (vp st) ! this_cpu h) + of_int (sint n)\<rparr> \<and>
            err_stats (vp (snd (ovs_vport_send_direct h skb st))) = err_stats (vp st) \<and>
            freed (snd (ovs_vport_send_direct h skb st)) = freed st) \<and>
         (sint n < 0 \<longrightarrow>
            err_stats (vp (snd (ovs_vport_send_direct h skb st))) =
              (err_stats (vp st))\<lparr>e_tx_errors := e_tx_errors (err_stats (vp st)) + 1\<rparr> \<and>
            percpu_stats (vp (snd (ovs_vport_send_direct h skb st))) = percpu_stats (vp st) \<and>
            freed (snd (ovs_vport_send_direct h skb st)) = freed st @ [skb]) \<and>
         (n = 0 \<longrightarrow>
            err_stats (vp (snd (ovs_vport_send_direct h skb st))) =
              (err_stats (vp st))\<lparr>e_tx_dropped := e_tx_dropped (err_stats (vp st)) + 1\<rparr> \<and>
            percpu_stats (vp (snd (ovs_vport_send_direct h skb st))) = percpu_stats (vp st) \<and>
            freed (snd (ovs_vport_send_direct h skb st)) = freed st)"
  using assms
  by (auto simp add: ovs_vport_send_direct_def Let_def kfree_skb_def word_sless_alt)

theorem ovs_vport_send_direct_accounting_witness:
  "fst (ovs_vport_send_direct host0 pkt_36 kstate0) = 50 \<and>
   percpu_stats (vp (snd (ovs_vport_send_direct host0 pkt_36 kstate0))) ! 0 =
     \<lparr>p_rx_packets = 0, p_rx_bytes = 0, p_tx_packets = 1, p_tx_bytes = 50\<rparr> \<and>
   err_stats (vp (snd (ovs_vport_send_direct host0 pkt_36 kstate0))) = zero_err_stats \<and>
   freed (snd (ovs_vport_send_direct host0 pkt_36 kstate0)) = [] \<and>
   fst (ovs_vport_send_direct host_err pkt_36 kstate0) = - 5 \<and>
   err_stats (vp (snd (ovs_vport_send_direct host_err pkt_36 kstate0))) =
     \<lparr>e_rx_dropped = 0, e_rx_errors = 0, e_tx_dropped = 0, e_tx_errors = 1\<rparr> \<and>
   freed (snd (ovs_vport_send_direct host_err pkt_36 kstate0)) = [pkt_36] \<and>
   fst (ovs_vport_send_direct host_drop pkt_36 kstate0) = 0 \<and>
   err_stats (vp (snd (ovs_vport_send_direct host_drop pkt_36 kstate0))) =
     \<lparr>e_rx_dropped = 0, e_rx_errors = 0, e_tx_dropped = 1, e_tx_errors = 0\<rparr> \<and>
   freed (snd (ovs_vport_send_direct host_drop pkt_36 kstate0)) = []"
proof -
  have l: "length (data pkt_36) = 50" by code_simp
  have s1: "ops_send host0 (vp kstate0) pkt_36 (world kstate0) = (50, 0)"
    by (simp add: host0_def l kstate0_def)
  have s2: "ops_send host_err (vp kstate0) pkt_36 (world kstate0) = (- 5, 0)"
    by (simp add: host_err_def host0_def kstate0_def)
  have s3: "ops_send host_drop (vp kstate0) pkt_36 (world kstate0) = (0, 0)"
    by (simp add: host_drop_def host0_def kstate0_def)
  have c: "this_cpu host0 < length (percpu_stats (vp kstate0))"
    "this_cpu host_err < length (percpu_stats (vp kstate0))"
    "this_cpu host_drop < length (percpu_stats (vp kstate0))"
    by (simp_all add: host0_def host_err_def host_drop_def kstate0_def vport0_def)
  have v: "percpu_stats (vp kstate0) ! this_cpu host0 = zero_tstats"
    "err_stats (vp kstate0) = zero_err_stats" "freed kstate0 = []" "this_cpu host0 = 0"
    by (simp_all add: host0_def kstate0_def vport0_def)
  show ?thesis
    using ovs_vport_send_direct_accounting [OF s1 c(1)]
      ovs_vport_send_direct_accounting [OF s2 c(2)]
      ovs_vport_send_direct_accounting [OF s3 c(3)] v
    by (simp add: zero_tstats_def zero_err_stats_def)
qed

lemma mtu_less_tot_len:
  fixes mtu :: u32 and t :: u16
  shows "(mtu < ucast t) = (unat mtu < unat t)"
  by (simp add: word_less_nat_alt unat_ucast_16_32)

lemma ucast_IP_DF: "(ucast IP_DF :: u16) = 0x4000"
  by (simp add: IP_DF_def)

text \<open>
  Claim C1, as the code has it. Take an untagged IPv4 packet (Ethernet type \<^verbatim>\<open>ETH_P_IP\<close>)
  with no per-packet override, sent on a vport whose \<^verbatim>\<open>mtu\<close> is nonzero. With the
  don't-fragment flag set, or with a total length of at most \<^verbatim>\<open>mtu\<close>, the label is \<^verbatim>\<open>send\<close>:
  the call returns the backend's result, the backend has received exactly the packet
  itself, and no buffer was allocated. Without the flag and with a total length above
  \<^verbatim>\<open>mtu\<close> the label is \<^verbatim>\<open>fragment\<close>; if moreover the frame is well formed and \<^verbatim>\<open>mtu\<close> leaves
  room for 8 payload bytes after the IP header, the call returns, every buffer the backend
  has received is a fragment whose total length is at most \<^verbatim>\<open>mtu\<close>, and when none of the
  allocations failed there are at least two fragments and their payloads, concatenated, are
  the packet's payload.
\<close>

theorem ovs_vport_send_plain_ipv4:
  assumes "eth_h_proto skb = ETH_P_IP"
    and "frag_max_size (cb skb) = 0"
    and "ovs_vport_send_mtu (vp st) \<noteq> 0"
  shows "(ip_frag_off skb AND 0x4000 \<noteq> 0 \<or>
          unat (ip_tot_len skb) \<le> unat (ovs_vport_send_mtu (vp st)) \<longrightarrow>
            ovs_vport_send_select h skb st = (Goto_send, st) \<and>
            (\<exists>r st'. ovs_vport_send h skb st = Some (r, st') \<and>
               r = fst (ops_send h (vp st) skb (world st)) \<and>
               tx_log st' = tx_log st @ [skb] \<and> allocs st' = allocs st)) \<and>
         (ip_frag_off skb AND 0x4000 = 0 \<and>
          unat (ovs_vport_send_mtu (vp st)) < unat (ip_tot_len skb) \<longrightarrow>
            ovs_vport_send_select h skb st = (Goto_fragment skb, st) \<and>
            (ipv4_frame skb \<and>
             unat (ip_hdrlen skb) + 8 \<le> unat (ovs_vport_send_mtu (vp st)) \<longrightarrow>
               (\<exists>r st' frs. ovs_vport_send h skb st = Some (r, st') \<and>
                  tx_log st' = tx_log st @ frs \<and>
                  (\<forall>f\<in>set frs. unat (ip_tot_len f) \<le> unat (ovs_vport_send_mtu (vp st))) \<and>
                  (False \<notin> set (drop (length (allocs st)) (allocs st')) \<longrightarrow>
                     2 \<le> length frs \<and> concat (map ip_payload frs) = ip_payload skb))))"
proof (intro conjI impI)
  let ?mtu = "ovs_vport_send_mtu (vp st)"
  assume d: "ip_frag_off skb AND 0x4000 \<noteq> 0 \<or> unat (ip_tot_len skb) \<le> unat ?mtu"
  then show sel: "ovs_vport_send_select h skb st = (Goto_send, st)"
    using assms
    by (auto simp add: ovs_vport_send_select_def Let_def mtu_less_tot_len ucast_IP_DF not_less)
  have "ovs_vport_send h skb st = Some (ovs_vport_send_direct h skb st)"
    by (simp add: ovs_vport_send_def sel)
  then show "\<exists>r st'. ovs_vport_send h skb st = Some (r, st') \<and>
               r = fst (ops_send h (vp st) skb (world st)) \<and>
               tx_log st' = tx_log st @ [skb] \<and> allocs st' = allocs st"
    using fst_send_direct [of h skb st] tx_log_send_direct [of h skb st]
      allocs_send_direct [of h skb st]
    by (cases "ovs_vport_send_direct h skb st") simp
next
  let ?mtu = "ovs_vport_send_mtu (vp st)"
  assume f: "ip_frag_off skb AND 0x4000 = 0 \<and> unat ?mtu < unat (ip_tot_len skb)"
  then show "ovs_vport_send_select h skb st = (Goto_fragment skb, st)"
    using assms
    by (simp add: ovs_vport_send_select_def Let_def mtu_less_tot_len ucast_IP_DF)
next
  let ?mtu = "ovs_vport_send_mtu (vp st)"
  let ?fm = "((if 0 < (0::u32) then 0 else ?mtu) - ip_hdrlen skb) AND NOT 7"
  let ?left = "ucast (ip_tot_len skb) - ip_hdrlen skb :: u32"
  let ?flag = "ucast (ip_frag_off skb) AND IP_DF :: u32"
  assume f: "ip_frag_off skb AND 0x4000 = 0 \<and> unat ?mtu < unat (ip_tot_len skb)"
    and g: "ipv4_frame skb \<and> unat (ip_hdrlen skb) + 8 \<le> unat ?mtu"
  have wf: "ipv4_frame skb" using g by simp
  have room: "unat (ip_hdrlen skb) + 8 \<le> unat (if 0 < (0::u32) then 0 else ?mtu)" using g by simp
  have sel: "ovs_vport_send_select h skb st = (Goto_fragment skb, st)"
    using assms f by (simp add: ovs_vport_send_select_def Let_def mtu_less_tot_len ucast_IP_DF)
  have snd: "ovs_vport_send h skb st = ovs_vport_fragment h skb 0 ?mtu st"
    using assms(2) by (simp add: ovs_vport_send_def sel)
  from fragment_run [OF wf room, of h st] obtain r st' frs as where
    run: "ovs_vport_fragment h skb 0 ?mtu st = Some (r, st')"
      "tx_log st' = tx_log st @ frs" "allocs st' = allocs st @ as"
      "frag_seq (False \<notin> set as) skb (ip_hdrlen skb) ?fm ?flag ?left 0 frs"
    by blast
  note inv = init_chain_inv [OF wf, of "(if 0 < (0::u32) then 0 else ?mtu) - ip_hdrlen skb"]
  note fm = frag_max_nonzero(2) [OF room]
  have fmle: "unat ?fm \<le> unat ?mtu - unat (ip_hdrlen skb)" unfolding fm by simp
  have fit: "\<forall>f\<in>set frs. unat (ip_tot_len f) \<le> unat ?mtu"
  proof
    fix f assume m: "f \<in> set frs"
    have "unat (ip_tot_len f) = unat (ip_hdrlen skb) + length (ip_payload f)"
      using chain_tot_len [OF run(4) inv m] by simp
    moreover have "length (ip_payload f) \<le> unat ?fm" by (rule chain_fits [OF run(4) inv m])
    ultimately show "unat (ip_tot_len f) \<le> unat ?mtu" using fmle g by arith
  qed
  have compl: "False \<notin> set (drop (length (allocs st)) (allocs st')) \<longrightarrow>
      2 \<le> length frs \<and> concat (map ip_payload frs) = ip_payload skb"
  proof
    assume "False \<notin> set (drop (length (allocs st)) (allocs st'))"
    then have "False \<notin> set as" by (simp add: run(3))
    then have seq: "frag_seq True skb (ip_hdrlen skb) ?fm ?flag ?left 0 frs" using run(4) by simp
    have ul: "unat ?left = unat (ip_tot_len skb) - unat (ip_hdrlen skb)"
      by (simp add: init_left [OF wf])
    have "unat ?fm < unat ?left" unfolding ul using fmle f g by arith
    then have "?fm < ?left" by (simp add: word_less_nat_alt)
    then have "2 \<le> length frs" by (rule chain_two [OF seq inv])
    moreover have "concat (map ip_payload frs) = ip_payload skb"
      using chain_payload [OF seq inv] by (simp add: ip_payload_orig(1) [OF wf] init_left [OF wf])
    ultimately show "2 \<le> length frs \<and> concat (map ip_payload frs) = ip_payload skb" ..
  qed
  have 1: "ovs_vport_send h skb st = Some (r, st')" using snd run(1) by simp
  show "\<exists>r st' frs. ovs_vport_send h skb st = Some (r, st') \<and>
      tx_log st' = tx_log st @ frs \<and>
      (\<forall>f\<in>set frs. unat (ip_tot_len f) \<le> unat ?mtu) \<and>
      (False \<notin> set (drop (length (allocs st)) (allocs st')) \<longrightarrow>
         2 \<le> length frs \<and> concat (map ip_payload frs) = ip_payload skb)"
    by (intro exI conjI) (rule 1 run(2) fit compl)+
qed

theorem ovs_vport_send_plain_ipv4_witness:
  "ovs_vport_send_mtu (vp (kstate_mtu 36)) = 36 \<and>
   ip_tot_len pkt_df = 40 \<and> ip_tot_len pkt_36 = 36 \<and> ip_tot_len pkt_37 = 37 \<and>
   sent_frags (ovs_vport_send host0 pkt_df (kstate_mtu 36)) = [pkt_df] \<and>
   sent_frags (ovs_vport_send host0 pkt_36 (kstate_mtu 36)) = [pkt_36] \<and>
   list_all (\<lambda>f. unat (ip_tot_len f) \<le> 36) (sent_frags (ovs_vport_send host0 pkt_37 (kstate_mtu 36))) \<and>
   map (\<lambda>f. unat (ip_tot_len f)) (sent_frags (ovs_vport_send host0 pkt_37 (kstate_mtu 36))) = [36, 21] \<and>
   concat (map ip_payload (sent_frags (ovs_vport_send host0 pkt_37 (kstate_mtu 36)))) = ip_payload pkt_37"
proof -
  let ?st = "kstate_mtu 36"
  have m: "ovs_vport_send_mtu (vp ?st) = 36" by code_simp
  then have m0: "ovs_vport_send_mtu (vp ?st) \<noteq> 0" by simp
  have e: "tx_log ?st = []" "allocs ?st = []" by (simp_all add: kstate_mtu_def kstate0_def)
  have a: "eth_h_proto pkt_df = ETH_P_IP" "frag_max_size (cb pkt_df) = 0"
    "ip_frag_off pkt_df AND 0x4000 \<noteq> 0" "ip_tot_len pkt_df = 40" by code_simp+
  have b: "eth_h_proto pkt_36 = ETH_P_IP" "frag_max_size (cb pkt_36) = 0"
    "ip_frag_off pkt_36 AND 0x4000 = 0" "ip_tot_len pkt_36 = 36" by code_simp+
  have c: "eth_h_proto pkt_37 = ETH_P_IP" "frag_max_size (cb pkt_37) = 0"
    "ip_frag_off pkt_37 AND 0x4000 = 0" "ip_tot_len pkt_37 = 37" "ipv4_frame pkt_37"
    "ip_hdrlen pkt_37 = 20" by code_simp+
  have 1: "sent_frags (ovs_vport_send host0 pkt_df ?st) = [pkt_df]"
    using ovs_vport_send_plain_ipv4 [OF a(1,2) m0, of host0] a(3) e
    by (auto simp add: sent_frags_def)
  have 2: "sent_frags (ovs_vport_send host0 pkt_36 ?st) = [pkt_36]"
    using ovs_vport_send_plain_ipv4 [OF b(1,2) m0, of host0] b(4) m e
    by (auto simp add: sent_frags_def)
  have al: "map_option (\<lambda>(r, s). allocs s) (ovs_vport_send host0 pkt_37 ?st) = Some [True, True]"
    by code_simp
  have "\<exists>r st' frs. ovs_vport_send host0 pkt_37 ?st = Some (r, st') \<and>
      tx_log st' = tx_log ?st @ frs \<and>
      (\<forall>f\<in>set frs. unat (ip_tot_len f) \<le> unat (ovs_vport_send_mtu (vp ?st))) \<and>
      (False \<notin> set (drop (length (allocs ?st)) (allocs st')) \<longrightarrow>
         2 \<le> length frs \<and> concat (map ip_payload frs) = ip_payload pkt_37)"
    using ovs_vport_send_plain_ipv4 [OF c(1,2) m0, of host0] c m by simp
  then obtain r st' frs where
    r: "ovs_vport_send host0 pkt_37 ?st = Some (r, st')" "tx_log st' = frs"
      "\<forall>f\<in>set frs. unat (ip_tot_len f) \<le> 36"
      "False \<notin> set (allocs st') \<longrightarrow> concat (map ip_payload frs) = ip_payload pkt_37"
    using e m by auto
  have sf: "sent_frags (ovs_vport_send host0 pkt_37 ?st) = frs" using r(1,2) by (simp add: sent_frags_def)
  have "allocs st' = [True, True]" using al r(1) by simp
  then have 3: "concat (map ip_payload frs) = ip_payload pkt_37" using r(4) by simp
  have 4: "list_all (\<lambda>f. unat (ip_tot_len f) \<le> 36) frs" using r(3) by (simp add: list_all_iff)
  have 5: "map (\<lambda>f. unat (ip_tot_len f)) (sent_frags (ovs_vport_send host0 pkt_37 ?st)) = [36, 21]"
    by code_simp
  show ?thesis using m a(4) b(4) c(4) 1 2 3 4 5 sf by simp
qed

text \<open>
  The claim as stated fails where \<^verbatim>\<open>mtu\<close> leaves fewer than 8 bytes after the IP header. With
  a 20-byte header, no don't-fragment flag and a total length of 40: on a device with MTU 10
  the subtraction wraps, the fragment size is huge and the backend receives the datagram
  whole in one frame of total length 40 with offset 0 and the more-fragments flag clear; on a
  device with MTU 24 the fragment size is 0 and the call never returns.
\<close>

theorem ovs_vport_send_small_mtu:
  "eth_h_proto pkt_40 = ETH_P_IP \<and> frag_max_size (cb pkt_40) = 0 \<and>
   ip_frag_off pkt_40 = 0 \<and> ip_tot_len pkt_40 = 40 \<and> ip_hdrlen pkt_40 = 20 \<and>
   ovs_vport_send_mtu (vp (kstate_mtu 10)) = 10 \<and> ovs_vport_send_mtu (vp (kstate_mtu 24)) = 24 \<and>
   map (\<lambda>f. (unat (ip_tot_len f), ip_frag_off f, ip_payload f))
     (sent_frags (ovs_vport_send host0 pkt_40 (kstate_mtu 10))) = [(40, 0, payload20)] \<and>
   ovs_vport_send host0 pkt_40 (kstate_mtu 24) = None"
proof -
  have a: "eth_h_proto pkt_40 = ETH_P_IP" "frag_max_size (cb pkt_40) = 0"
    "ip_frag_off pkt_40 = 0" "ip_tot_len pkt_40 = 40" "ip_hdrlen pkt_40 = 20"
    "ovs_vport_send_mtu (vp (kstate_mtu 10)) = 10" "ovs_vport_send_mtu (vp (kstate_mtu 24)) = 24"
    by code_simp+
  have b: "map (\<lambda>f. (unat (ip_tot_len f), ip_frag_off f, ip_payload f))
     (sent_frags (ovs_vport_send host0 pkt_40 (kstate_mtu 10))) = [(40, 0, payload20)]"
    by code_simp
  have al: "\<forall>len w. fst (alloc_skb host0 len w)" by (simp add: host0_def)
  have sel: "ovs_vport_send_select host0 pkt_40 (kstate_mtu 24) = (Goto_fragment pkt_40, kstate_mtu 24)"
    by code_simp
  have fr: "ovs_vport_fragment host0 pkt_40 0 24 (kstate_mtu 24) =
      ovs_vport_fragment_loop host0 pkt_40 20 0 0 20 0 0 (kstate_mtu 24)"
    by (simp add: ovs_vport_fragment_def Let_def a)
  have "ovs_vport_send host0 pkt_40 (kstate_mtu 24) = None"
    using loop_diverges [OF al, of 20 pkt_40 20 0 0 0 "kstate_mtu 24"]
    by (simp add: ovs_vport_send_def sel a fr)
  then show ?thesis using a b by simp
qed

text \<open>
  Claim C2. A packet whose per-packet \<^verbatim>\<open>frag_max_size\<close> is positive always takes the label
  \<^verbatim>\<open>fragment\<close>, unchanged, and the fragmentation that follows is the one with that override
  as ceiling whatever the value \<open>m\<close> of the device MTU.
\<close>

theorem ovs_vport_send_override:
  assumes "0 < frag_max_size (cb skb)"
  shows "ovs_vport_send_select h skb st = (Goto_fragment skb, st) \<and>
         ovs_vport_send h skb st = ovs_vport_fragment h skb (frag_max_size (cb skb)) m st"
  using assms
  by (simp add: ovs_vport_send_def ovs_vport_send_select_def Let_def ovs_vport_fragment_def)

theorem ovs_vport_send_override_witness:
  "frag_max_size (cb pkt_1000) = 600 \<and> ip_tot_len pkt_1000 = 1000 \<and>
   ovs_vport_send_mtu (vp kstate0) = 1500 \<and>
   ovs_vport_send host0 pkt_1000 kstate0 = ovs_vport_fragment host0 pkt_1000 600 1500 kstate0 \<and>
   map (\<lambda>f. unat (ip_tot_len f)) (sent_frags (ovs_vport_send host0 pkt_1000 kstate0)) = [596, 424]"
proof -
  have a: "frag_max_size (cb pkt_1000) = 600" by (simp add: pkt_1000_def ipv4_pkt_def)
  then have a0: "0 < frag_max_size (cb pkt_1000)" by simp
  have b: "ip_tot_len pkt_1000 = 1000"
    by (simp add: pkt_1000_def ipv4_pkt_def ip_tot_len_def get_be16_def)
  have c: "ovs_vport_send_mtu (vp kstate0) = 1500" by code_simp
  have d: "map (\<lambda>f. unat (ip_tot_len f)) (sent_frags (ovs_vport_send host0 pkt_1000 kstate0)) = [596, 424]"
    by code_simp
  show ?thesis
    using ovs_vport_send_override [OF a0, of host0 kstate0 1500] a b c d by simp
qed

text \<open>
  Claim C5. For a VLAN-tagged IPv4 packet without the don't-fragment flag, with no override,
  whose total length exceeds a nonzero \<^verbatim>\<open>mtu\<close>: when \<^verbatim>\<open>skb_cow_head\<close> succeeds the tag is
  stripped and the stripped packet is fragmented; when it fails the call returns 0 and, but
  for the state of the rest of the kernel, nothing changes: the backend is not invoked, no
  counter moves, and the buffer is not passed to \<^verbatim>\<open>kfree_skb\<close>.
\<close>

theorem ovs_vport_send_vlan_oversize:
  assumes "eth_h_proto skb = ETH_P_8021Q"
    and "vlan_h_vlan_encapsulated_proto skb = ETH_P_IP"
    and "frag_max_size (cb skb) = 0"
    and "ovs_vport_send_mtu (vp st) \<noteq> 0"
    and "ip_frag_off skb AND 0x4000 = 0"
    and "unat (ovs_vport_send_mtu (vp st)) < unat (ip_tot_len skb)"
    and "skb_cow_head h skb (world st) = (ok, w)"
  shows "(ok \<longrightarrow> (\<exists>skb'. ovs_vlan_untag h skb (world st) = (Some skb', w) \<and>
            ovs_vport_send h skb st =
              ovs_vport_fragment h skb' 0 (ovs_vport_send_mtu (vp st)) (st\<lparr>world := w\<rparr>))) \<and>
         (\<not> ok \<longrightarrow> ovs_vport_send h skb st = Some (0, st\<lparr>world := w\<rparr>))"
  using assms
  by (simp add: ovs_vport_send_def ovs_vport_send_select_def Let_def mtu_less_tot_len
      ucast_IP_DF ovs_vlan_untag_def ETH_P_IP_def ETH_P_8021Q_def)

theorem ovs_vport_send_vlan_oversize_witness:
  "eth_h_proto pkt_vlan = ETH_P_8021Q \<and> vlan_h_vlan_encapsulated_proto pkt_vlan = ETH_P_IP \<and>
   ip_tot_len pkt_vlan = 40 \<and> ovs_vport_send_mtu (vp (kstate_mtu 36)) = 36 \<and>
   skb_cow_head host_nocow pkt_vlan (world (kstate_mtu 36)) = (False, 0) \<and>
   ovs_vport_send host_nocow pkt_vlan (kstate_mtu 36) = Some (0, kstate_mtu 36) \<and>
   freed (kstate_mtu 36) = [] \<and> tx_log (kstate_mtu 36) = []"
proof -
  have m: "ovs_vport_send_mtu (vp (kstate_mtu 36)) = 36" by code_simp
  then have m0: "ovs_vport_send_mtu (vp (kstate_mtu 36)) \<noteq> 0" by simp
  have a: "eth_h_proto pkt_vlan = ETH_P_8021Q" "vlan_h_vlan_encapsulated_proto pkt_vlan = ETH_P_IP"
    "frag_max_size (cb pkt_vlan) = 0" "ip_frag_off pkt_vlan AND 0x4000 = 0" "ip_tot_len pkt_vlan = 40"
    by code_simp+
  have over: "unat (ovs_vport_send_mtu (vp (kstate_mtu 36))) < unat (ip_tot_len pkt_vlan)"
    by (simp add: m a)
  have cow: "skb_cow_head host_nocow pkt_vlan (world (kstate_mtu 36)) = (False, 0)"
    by (simp add: host_nocow_def kstate_mtu_def kstate0_def)
  have st: "(kstate_mtu 36)\<lparr>world := 0\<rparr> = kstate_mtu 36" "freed (kstate_mtu 36) = []"
    "tx_log (kstate_mtu 36) = []"
    by (simp_all add: kstate_mtu_def kstate0_def)
  show ?thesis
    using ovs_vport_send_vlan_oversize [OF a(1,2,3) m0 a(4) over cow] a m cow st by simp
qed

section \<open>Properties of \<^verbatim>\<open>ovs_vport_fragment\<close>\<close>

text \<open>
  Claim C4. When an allocation fails the loop stops, the fragments already sent stand and
  the result of the last send is returned; but the early return skips \<^verbatim>\<open>kfree_skb\<close>, so the
  original buffer is released only by a run that completes. Here the second allocation fails
  on a packet that needs two fragments: one fragment is sent, its result 50 is returned, and
  nothing is released; the complete run returns the second result and releases the original.
\<close>

theorem ovs_vport_fragment_alloc_failure:
  "map_option (\<lambda>(r, s). (r, map (\<lambda>f. unat (ip_tot_len f)) (tx_log s), freed s))
     (ovs_vport_fragment host_alloc1 pkt_ovr 36 1500 kstate0) = Some (50, [36], []) \<and>
   map_option (\<lambda>(r, s). (r, map (\<lambda>f. unat (ip_tot_len f)) (tx_log s), freed s))
     (ovs_vport_fragment host0 pkt_ovr 36 1500 kstate0) = Some (38, [36, 24], [pkt_ovr])"
  by code_simp

text \<open>
  Claim C3, as the code has it. Take an IPv4 frame whose IP header starts right after the
  14-byte Ethernet header, whose total length exceeds the ceiling (the override if positive,
  else \<^verbatim>\<open>mtu\<close>), and a ceiling that leaves room for at least 8 payload bytes after the IP
  header. Then \<^verbatim>\<open>ovs_vport_fragment\<close> returns, and if none of the allocations of this run
  failed, it has sent at least two fragments such that: the payloads concatenated in
  sending order are the original IP payload; every fragment but the last carries the
  ceiling minus the header length, rounded down to a multiple of 8; each fragment's offset
  field times 8 is the number of payload bytes sent before it; each fragment's \<^verbatim>\<open>tot_len\<close> is
  the original's header length plus the fragment's payload length; and the more-fragments
  flag is set on every fragment but the last and clear on the last.
\<close>

theorem ovs_vport_fragment_reassembly:
  assumes wf: "ipv4_frame skb"
    and room: "unat (ip_hdrlen skb) + 8 \<le> unat (if 0 < fms then fms else mtu)"
    and over: "unat (if 0 < fms then fms else mtu) < unat (ip_tot_len skb)"
  shows "\<exists>r st' frs. ovs_vport_fragment h skb fms mtu st = Some (r, st') \<and>
      tx_log st' = tx_log st @ frs \<and>
      (False \<notin> set (drop (length (allocs st)) (allocs st')) \<longrightarrow>
         2 \<le> length frs \<and>
         concat (map ip_payload frs) = ip_payload skb \<and>
         (\<forall>i<length frs. Suc i < length frs \<longrightarrow>
            length (ip_payload (frs ! i)) =
              8 * ((unat (if 0 < fms then fms else mtu) - unat (ip_hdrlen skb)) div 8)) \<and>
         (\<forall>i<length frs. 8 * unat (ip_frag_off (frs ! i) AND 0x1FFF) =
            length (concat (map ip_payload (take i frs)))) \<and>
         (\<forall>f\<in>set frs. unat (ip_tot_len f) = unat (ip_hdrlen skb) + length (ip_payload f)) \<and>
         (\<forall>i<length frs. (ip_frag_off (frs ! i) AND 0x2000 \<noteq> 0) = (Suc i < length frs)))"
proof -
  let ?c = "if 0 < fms then fms else mtu"
  let ?fm = "(?c - ip_hdrlen skb) AND NOT 7"
  let ?left = "ucast (ip_tot_len skb) - ip_hdrlen skb :: u32"
  let ?flag = "ucast (ip_frag_off skb) AND IP_DF :: u32"
  note fm = frag_max_nonzero [OF room]
  from fragment_run [OF wf room, of h st] obtain r st' frs as where
    run: "ovs_vport_fragment h skb fms mtu st = Some (r, st')"
      "tx_log st' = tx_log st @ frs" "allocs st' = allocs st @ as"
      "frag_seq (False \<notin> set as) skb (ip_hdrlen skb) ?fm ?flag ?left 0 frs"
    by blast
  note inv = init_chain_inv [OF wf, of "?c - ip_hdrlen skb"]
  have ul: "unat ?left = unat (ip_tot_len skb) - unat (ip_hdrlen skb)" by (rule init_left [OF wf])
  have compl: "False \<notin> set (drop (length (allocs st)) (allocs st')) \<longrightarrow>
         2 \<le> length frs \<and>
         concat (map ip_payload frs) = ip_payload skb \<and>
         (\<forall>i<length frs. Suc i < length frs \<longrightarrow>
            length (ip_payload (frs ! i)) = 8 * ((unat ?c - unat (ip_hdrlen skb)) div 8)) \<and>
         (\<forall>i<length frs. 8 * unat (ip_frag_off (frs ! i) AND 0x1FFF) =
            length (concat (map ip_payload (take i frs)))) \<and>
         (\<forall>f\<in>set frs. unat (ip_tot_len f) = unat (ip_hdrlen skb) + length (ip_payload f)) \<and>
         (\<forall>i<length frs. (ip_frag_off (frs ! i) AND 0x2000 \<noteq> 0) = (Suc i < length frs))"
  proof
    assume "False \<notin> set (drop (length (allocs st)) (allocs st'))"
    then have "False \<notin> set as" by (simp add: run(3))
    then have seq: "frag_seq True skb (ip_hdrlen skb) ?fm ?flag ?left 0 frs" using run(4) by simp
    have "unat ?fm < unat ?left" unfolding ul fm(2) using room over by arith
    then have "?fm < ?left" by (simp add: word_less_nat_alt)
    then have two: "2 \<le> length frs" by (rule chain_two [OF seq inv])
    have pl: "concat (map ip_payload frs) = ip_payload skb"
      using chain_payload [OF seq inv] by (simp add: ip_payload_orig(1) [OF wf] ul)
    have a: "\<forall>i<length frs. Suc i < length frs \<longrightarrow>
           length (ip_payload (frs ! i)) = 8 * ((unat ?c - unat (ip_hdrlen skb)) div 8)"
    proof (intro allI impI)
      fix i assume "i < length frs" "Suc i < length frs"
      with chain_complete [OF seq inv] have "length (ip_payload (frs ! i)) = unat ?fm" by blast
      then show "length (ip_payload (frs ! i)) = 8 * ((unat ?c - unat (ip_hdrlen skb)) div 8)"
        by (simp only: fm(2))
    qed
    have b: "\<forall>i<length frs. 8 * unat (ip_frag_off (frs ! i) AND 0x1FFF) =
           length (concat (map ip_payload (take i frs)))"
      using chain_offset [OF seq inv] by simp
    have c: "\<forall>f\<in>set frs. unat (ip_tot_len f) = unat (ip_hdrlen skb) + length (ip_payload f)"
      using chain_tot_len [OF seq inv] by simp
    have d: "\<forall>i<length frs. (ip_frag_off (frs ! i) AND 0x2000 \<noteq> 0) = (Suc i < length frs)"
      using chain_complete [OF seq inv] by simp
    show "2 \<le> length frs \<and>
         concat (map ip_payload frs) = ip_payload skb \<and>
         (\<forall>i<length frs. Suc i < length frs \<longrightarrow>
            length (ip_payload (frs ! i)) = 8 * ((unat ?c - unat (ip_hdrlen skb)) div 8)) \<and>
         (\<forall>i<length frs. 8 * unat (ip_frag_off (frs ! i) AND 0x1FFF) =
            length (concat (map ip_payload (take i frs)))) \<and>
         (\<forall>f\<in>set frs. unat (ip_tot_len f) = unat (ip_hdrlen skb) + length (ip_payload f)) \<and>
         (\<forall>i<length frs. (ip_frag_off (frs ! i) AND 0x2000 \<noteq> 0) = (Suc i < length frs))"
      by (intro conjI) (rule two pl a b c d)+
  qed
  show ?thesis by (intro exI conjI) (rule run(1) run(2) compl)+
qed

theorem ovs_vport_fragment_reassembly_witness:
  "ipv4_frame pkt_ovr \<and> ip_hdrlen pkt_ovr = 20 \<and> ip_tot_len pkt_ovr = 40 \<and>
   (\<exists>r st' frs. ovs_vport_fragment host0 pkt_ovr 36 1500 kstate0 = Some (r, st') \<and>
      allocs st' = [True, True] \<and> tx_log st' = frs \<and> length frs = 2 \<and>
      concat (map ip_payload frs) = ip_payload pkt_ovr \<and>
      length (ip_payload (frs ! 0)) = 16 \<and>
      8 * unat (ip_frag_off (frs ! 0) AND 0x1FFF) = 0 \<and>
      8 * unat (ip_frag_off (frs ! 1) AND 0x1FFF) = length (ip_payload (frs ! 0)) \<and>
      unat (ip_tot_len (frs ! 0)) = 20 + length (ip_payload (frs ! 0)) \<and>
      unat (ip_tot_len (frs ! 1)) = 20 + length (ip_payload (frs ! 1)) \<and>
      ip_frag_off (frs ! 0) AND 0x2000 \<noteq> 0 \<and> ip_frag_off (frs ! 1) AND 0x2000 = 0) \<and>
   map (\<lambda>f. (length (ip_payload f), ip_frag_off f, unat (ip_tot_len f)))
     (sent_frags (ovs_vport_fragment host0 pkt_ovr 36 1500 kstate0)) = [(16, 0x2000, 36), (4, 2, 24)]"
proof -
  have a: "ipv4_frame pkt_ovr" "ip_hdrlen pkt_ovr = 20" "ip_tot_len pkt_ovr = 40" by code_simp+
  have room: "unat (ip_hdrlen pkt_ovr) + 8 \<le> unat (if 0 < (36::u32) then 36 else (1500::u32))"
    by (simp add: a)
  have over: "unat (if 0 < (36::u32) then 36 else (1500::u32)) < unat (ip_tot_len pkt_ovr)"
    by (simp add: a)
  have e: "tx_log kstate0 = []" "allocs kstate0 = []" by (simp_all add: kstate0_def)
  have al: "map_option (\<lambda>(r, s). allocs s) (ovs_vport_fragment host0 pkt_ovr 36 1500 kstate0) =
      Some [True, True]"
    by code_simp
  have ev: "map (\<lambda>f. (length (ip_payload f), ip_frag_off f, unat (ip_tot_len f)))
     (sent_frags (ovs_vport_fragment host0 pkt_ovr 36 1500 kstate0)) = [(16, 0x2000, 36), (4, 2, 24)]"
    by code_simp
  from ovs_vport_fragment_reassembly [OF a(1) room over, of host0 kstate0]
  obtain r st' frs where
    run: "ovs_vport_fragment host0 pkt_ovr 36 1500 kstate0 = Some (r, st')" "tx_log st' = frs"
    and imp: "False \<notin> set (allocs st') \<longrightarrow>
         2 \<le> length frs \<and>
         concat (map ip_payload frs) = ip_payload pkt_ovr \<and>
         (\<forall>i<length frs. Suc i < length frs \<longrightarrow> length (ip_payload (frs ! i)) = 16) \<and>
         (\<forall>i<length frs. 8 * unat (ip_frag_off (frs ! i) AND 0x1FFF) =
            length (concat (map ip_payload (take i frs)))) \<and>
         (\<forall>f\<in>set frs. unat (ip_tot_len f) = 20 + length (ip_payload f)) \<and>
         (\<forall>i<length frs. (ip_frag_off (frs ! i) AND 0x2000 \<noteq> 0) = (Suc i < length frs))"
    by (auto simp add: a e)
  have as: "allocs st' = [True, True]" using al run(1) by simp
  have len: "length frs = 2" using ev run by (auto simp add: sent_frags_def)
  then obtain f0 f1 where frs: "frs = [f0, f1]"
    by (cases frs; cases "tl frs") auto
  have "\<exists>st' frs. ovs_vport_fragment host0 pkt_ovr 36 1500 kstate0 = Some (r, st') \<and>
      allocs st' = [True, True] \<and> tx_log st' = frs \<and> length frs = 2 \<and>
      concat (map ip_payload frs) = ip_payload pkt_ovr \<and>
      length (ip_payload (frs ! 0)) = 16 \<and>
      8 * unat (ip_frag_off (frs ! 0) AND 0x1FFF) = 0 \<and>
      8 * unat (ip_frag_off (frs ! 1) AND 0x1FFF) = length (ip_payload (frs ! 0)) \<and>
      unat (ip_tot_len (frs ! 0)) = 20 + length (ip_payload (frs ! 0)) \<and>
      unat (ip_tot_len (frs ! 1)) = 20 + length (ip_payload (frs ! 1)) \<and>
      ip_frag_off (frs ! 0) AND 0x2000 \<noteq> 0 \<and> ip_frag_off (frs ! 1) AND 0x2000 = 0"
    using imp run as unfolding frs by (intro exI [of _ st'] exI [of _ "[f0, f1]"]) (simp add: All_less_Suc)
  then show ?thesis using a ev by blast
qed

text \<open>
  The claim as stated fails in two places. Where the ceiling leaves fewer than 8 bytes after
  the header the fragment size is 0: with a 20-byte header and a ceiling of 24 the call on
  an oversize frame never returns. And a frame that still carries its 802.1Q tag inline,
  which \<^verbatim>\<open>ovs_vport_send\<close> hands over unstripped when the per-packet override is positive, is
  cut at the offsets of an untagged frame: with a 20-byte header, 20 payload bytes, a ceiling
  of 36 and both allocations succeeding, the two buffers sent have the encapsulated protocol
  overwritten by the length field, carry the last four header bytes followed by the first
  sixteen payload bytes, and the last four payload bytes are never sent.
\<close>

theorem ovs_vport_fragment_reassembly_fails:
  "ipv4_frame pkt_tiny \<and> ip_hdrlen pkt_tiny = 20 \<and> ip_tot_len pkt_tiny = 40 \<and>
   alloc_skb host0 = (\<lambda>len w. (True, Suc w)) \<and>
   ovs_vport_fragment host0 pkt_tiny 24 1500 kstate0 = None \<and>
   eth_h_proto pkt_vlan_ovr = ETH_P_8021Q \<and> take 2 (drop 16 (data pkt_vlan_ovr)) = [0x08, 0x00] \<and>
   network_header pkt_vlan_ovr = 18 \<and> ip_hdrlen pkt_vlan_ovr = 20 \<and>
   ip_tot_len pkt_vlan_ovr = 40 \<and> ip_frag_off pkt_vlan_ovr = 0 \<and>
   ip_payload pkt_vlan_ovr = payload20 \<and> frag_max_size (cb pkt_vlan_ovr) = 36 \<and>
   ovs_vport_send_select host0 pkt_vlan_ovr kstate0 = (Goto_fragment pkt_vlan_ovr, kstate0) \<and>
   map_option (\<lambda>(r, s). allocs s) (ovs_vport_fragment host0 pkt_vlan_ovr 36 1500 kstate0) =
     Some [True, True] \<and>
   map data (sent_frags (ovs_vport_fragment host0 pkt_vlan_ovr 36 1500 kstate0)) =
     [[2, 0, 0, 0, 0, 1, 2, 0, 0, 0, 0, 2, 0x81, 0x00, 0, 100, 0, 36,
       0x45, 0, 0x20, 0, 0, 1, 255, 255, 64, 17, 0, 0, 10, 0, 0, 1,
       10, 0, 0, 2, 1, 2, 3, 4, 5, 6, 7, 8, 9, 10, 11, 12],
      [2, 0, 0, 0, 0, 1, 2, 0, 0, 0, 0, 2, 0x81, 0x00, 0, 100, 0, 24,
       0x45, 0, 0, 2, 0, 1, 255, 255, 64, 17, 0, 0, 10, 0, 0, 1,
       13, 14, 15, 16]] \<and>
   concat (map (drop 34 \<circ> data) (sent_frags (ovs_vport_fragment host0 pkt_vlan_ovr 36 1500 kstate0))) =
     [10, 0, 0, 2] @ take 16 payload20 \<and>
   concat (map ip_payload (sent_frags (ovs_vport_fragment host0 pkt_vlan_ovr 36 1500 kstate0))) \<noteq>
     ip_payload pkt_vlan_ovr"
proof -
  have a: "ipv4_frame pkt_tiny" "ip_hdrlen pkt_tiny = 20" "ip_tot_len pkt_tiny = 40" by code_simp+
  have b: "alloc_skb host0 = (\<lambda>len w. (True, Suc w))" by (simp add: host0_def)
  then have al: "\<forall>len w. fst (alloc_skb host0 len w)" by simp
  have c: "ovs_vport_fragment host0 pkt_tiny 24 1500 kstate0 = None"
    unfolding ovs_vport_fragment_def Let_def a
    using loop_diverges [OF al, of 20 pkt_tiny 20] by simp
  have d: "eth_h_proto pkt_vlan_ovr = ETH_P_8021Q" "take 2 (drop 16 (data pkt_vlan_ovr)) = [0x08, 0x00]"
    "network_header pkt_vlan_ovr = 18" "ip_hdrlen pkt_vlan_ovr = 20"
    "ip_tot_len pkt_vlan_ovr = 40" "ip_frag_off pkt_vlan_ovr = 0"
    "ip_payload pkt_vlan_ovr = payload20" "frag_max_size (cb pkt_vlan_ovr) = 36"
    by code_simp+
  have e: "ovs_vport_send_select host0 pkt_vlan_ovr kstate0 = (Goto_fragment pkt_vlan_ovr, kstate0)"
    by code_simp
  have f: "map_option (\<lambda>(r, s). allocs s) (ovs_vport_fragment host0 pkt_vlan_ovr 36 1500 kstate0) =
     Some [True, True]"
    by code_simp
  have g: "map data (sent_frags (ovs_vport_fragment host0 pkt_vlan_ovr 36 1500 kstate0)) =
     [[2, 0, 0, 0, 0, 1, 2, 0, 0, 0, 0, 2, 0x81, 0x00, 0, 100, 0, 36,
       0x45, 0, 0x20, 0, 0, 1, 255, 255, 64, 17, 0, 0, 10, 0, 0, 1,
       10, 0, 0, 2, 1, 2, 3, 4, 5, 6, 7, 8, 9, 10, 11, 12],
      [2, 0, 0, 0, 0, 1, 2, 0, 0, 0, 0, 2, 0x81, 0x00, 0, 100, 0, 24,
       0x45, 0, 0, 2, 0, 1, 255, 255, 64, 17, 0, 0, 10, 0, 0, 1,
       13, 14, 15, 16]]"
    by code_simp
  have i: "concat (map (drop 34 \<circ> data) (sent_frags (ovs_vport_fragment host0 pkt_vlan_ovr 36 1500 kstate0))) =
     [10, 0, 0, 2] @ take 16 payload20"
    by code_simp
  have j: "concat (map ip_payload (sent_frags (ovs_vport_fragment host0 pkt_vlan_ovr 36 1500 kstate0))) \<noteq>
     ip_payload pkt_vlan_ovr"
    by code_simp
  show ?thesis by (intro conjI) (rule a b c d e f g i j)+
qed


text \<open>
  Claim C10. On a plain IPv4 frame the call returns whenever the ceiling leaves room for 8
  payload bytes, and whenever it returns (complete or cut short by an allocation failure)
  every fragment it sent has: an offset field that, times 8, is the number of payload bytes
  sent before it, so the first is 0 whatever offset the original carried; the original's
  don't-fragment bit; a clear reserved bit; and a more-fragments bit that is set exactly
  when payload of the original remains after this fragment, whatever the original's bit.
\<close>

theorem ovs_vport_fragment_offsets:
  assumes wf: "ipv4_frame skb"
  shows "(unat (ip_hdrlen skb) + 8 \<le> unat (if 0 < fms then fms else mtu) \<longrightarrow>
            (\<exists>y. ovs_vport_fragment h skb fms mtu st = Some y)) \<and>
         (\<forall>r st'. ovs_vport_fragment h skb fms mtu st = Some (r, st') \<longrightarrow>
            (\<exists>frs. tx_log st' = tx_log st @ frs \<and>
              (\<forall>i<length frs.
                 8 * unat (ip_frag_off (frs ! i) AND 0x1FFF) =
                   length (concat (map ip_payload (take i frs))) \<and>
                 ip_frag_off (frs ! i) AND 0x4000 = ip_frag_off skb AND 0x4000 \<and>
                 ip_frag_off (frs ! i) AND 0x8000 = 0 \<and>
                 (ip_frag_off (frs ! i) AND 0x2000 \<noteq> 0) =
                   (length (concat (map ip_payload (take (Suc i) frs))) <
                    length (ip_payload skb)))))"
proof (intro conjI impI allI)
  assume "unat (ip_hdrlen skb) + 8 \<le> unat (if 0 < fms then fms else mtu)"
  then show "\<exists>y. ovs_vport_fragment h skb fms mtu st = Some y"
    by (intro fragment_terminates frag_max_nonzero(1))
next
  fix r st'
  assume ret: "ovs_vport_fragment h skb fms mtu st = Some (r, st')"
  let ?fm = "((if 0 < fms then fms else mtu) - ip_hdrlen skb) AND NOT 7"
  let ?left = "ucast (ip_tot_len skb) - ip_hdrlen skb :: u32"
  let ?flag = "ucast (ip_frag_off skb) AND IP_DF :: u32"
  from fragment_returns_chain [OF ret] obtain frs as where
    log: "tx_log st' = tx_log st @ frs" and
    seq: "frag_seq (False \<notin> set as) skb (ip_hdrlen skb) ?fm ?flag ?left 0 frs"
    by auto
  note inv = init_chain_inv [OF wf, of "(if 0 < fms then fms else mtu) - ip_hdrlen skb"] init_left [OF wf]
  have "\<forall>i<length frs.
         8 * unat (ip_frag_off (frs ! i) AND 0x1FFF) =
           length (concat (map ip_payload (take i frs))) \<and>
         ip_frag_off (frs ! i) AND 0x4000 = ip_frag_off skb AND 0x4000 \<and>
         ip_frag_off (frs ! i) AND 0x8000 = 0 \<and>
         (ip_frag_off (frs ! i) AND 0x2000 \<noteq> 0) =
           (length (concat (map ip_payload (take (Suc i) frs))) < length (ip_payload skb))"
  proof (intro allI impI)
    fix i assume i: "i < length frs"
    then have mem: "frs ! i \<in> set frs" by simp
    show "8 * unat (ip_frag_off (frs ! i) AND 0x1FFF) =
           length (concat (map ip_payload (take i frs))) \<and>
         ip_frag_off (frs ! i) AND 0x4000 = ip_frag_off skb AND 0x4000 \<and>
         ip_frag_off (frs ! i) AND 0x8000 = 0 \<and>
         (ip_frag_off (frs ! i) AND 0x2000 \<noteq> 0) =
           (length (concat (map ip_payload (take (Suc i) frs))) < length (ip_payload skb))"
      using chain_offset [OF seq inv(1) i] chain_dont_frag [OF seq inv(1) mem]
        chain_more_frags [OF seq inv(1) i] init_flag(2) [of "ip_frag_off skb"]
      by (simp add: ip_payload_orig(2) [OF wf] inv(2))
  qed
  then show "\<exists>frs. tx_log st' = tx_log st @ frs \<and>
      (\<forall>i<length frs.
         8 * unat (ip_frag_off (frs ! i) AND 0x1FFF) =
           length (concat (map ip_payload (take i frs))) \<and>
         ip_frag_off (frs ! i) AND 0x4000 = ip_frag_off skb AND 0x4000 \<and>
         ip_frag_off (frs ! i) AND 0x8000 = 0 \<and>
         (ip_frag_off (frs ! i) AND 0x2000 \<noteq> 0) =
           (length (concat (map ip_payload (take (Suc i) frs))) < length (ip_payload skb)))"
    using log by blast
qed

theorem ovs_vport_fragment_offsets_witness:
  "ipv4_frame pkt_refrag \<and> ip_frag_off pkt_refrag = 0x20B9 \<and>
   map ip_frag_off (sent_frags (ovs_vport_fragment host0 pkt_refrag 36 1500 kstate0)) = [0x2000, 2] \<and>
   8 * unat (ip_frag_off (sent_frags (ovs_vport_fragment host0 pkt_refrag 36 1500 kstate0) ! 1) AND 0x1FFF) =
     length (concat (map ip_payload
       (take 1 (sent_frags (ovs_vport_fragment host0 pkt_refrag 36 1500 kstate0)))))"
proof -
  have a: "ipv4_frame pkt_refrag" "ip_frag_off pkt_refrag = 0x20B9" "ip_hdrlen pkt_refrag = 20"
    by code_simp+
  have ev: "map ip_frag_off (sent_frags (ovs_vport_fragment host0 pkt_refrag 36 1500 kstate0)) = [0x2000, 2]"
    by code_simp
  note inst = ovs_vport_fragment_offsets [OF a(1), of 36 1500 host0 kstate0]
  have "unat (ip_hdrlen pkt_refrag) + 8 \<le> unat (if 0 < (36::u32) then 36 else (1500::u32))"
    by (simp add: a)
  with inst obtain y where "ovs_vport_fragment host0 pkt_refrag 36 1500 kstate0 = Some y" by blast
  then obtain r st' where ret: "ovs_vport_fragment host0 pkt_refrag 36 1500 kstate0 = Some (r, st')"
    by (cases y) simp
  then have sf: "sent_frags (ovs_vport_fragment host0 pkt_refrag 36 1500 kstate0) = tx_log st'"
    by (simp add: sent_frags_def)
  have len: "length (tx_log st') = 2" using ev sf by (metis length_map length_Cons list.size(3) numeral_2_eq_2)
  from inst ret obtain frs where
    frs: "tx_log st' = tx_log kstate0 @ frs"
      "\<forall>i<length frs. 8 * unat (ip_frag_off (frs ! i) AND 0x1FFF) =
           length (concat (map ip_payload (take i frs))) \<and>
         ip_frag_off (frs ! i) AND 0x4000 = ip_frag_off pkt_refrag AND 0x4000 \<and>
         ip_frag_off (frs ! i) AND 0x8000 = 0 \<and>
         (ip_frag_off (frs ! i) AND 0x2000 \<noteq> 0) =
           (length (concat (map ip_payload (take (Suc i) frs))) < length (ip_payload pkt_refrag))"
    by blast
  have "frs = tx_log st'" using frs(1) by (simp add: kstate0_def)
  then have "8 * unat (ip_frag_off (tx_log st' ! 1) AND 0x1FFF) =
           length (concat (map ip_payload (take 1 (tx_log st'))))"
    using frs(2) len by simp
  then show ?thesis using a ev sf by simp
qed

end
